theory Spec2Isabelle
  imports Complex_Main "HOL-Library.Word" "HOL-Library.Finite_Map"
begin

unbundle bit_operations_syntax

section \<open>Conventions of the embedding\<close>

text \<open>
  The development follows the Python package \<^verbatim>\<open>muse_spotify_recorder\<close>.
  Python \<^verbatim>\<open>bytes\<close> are lists of 8-bit words, Python integers are \<^typ>\<open>int\<close>,
  and Python floats (also the entries of numpy \<^verbatim>\<open>float64\<close> arrays) are read as
  \<^typ>\<open>real\<close> numbers: rounding of IEEE arithmetic is not part of the model.
  A one-dimensional numpy array is a list, a two-dimensional one is a list of rows.
  A raised exception is a value of type \<open>error\<close>; a function that may raise returns
  \<open>error + 'a\<close> with \<open>Inl\<close> for the exception. A dictionary is a finite map.
  A reading of the clock \<^verbatim>\<open>pylsl.local_clock()\<close> is an argument of the function
  that takes the reading. Attributes that only name things (the device address, the
  device name) and the console output are left out.
\<close>

type_synonym byte = "8 word"

datatype error =
    ValueError string
  | RuntimeError string
  | ReadError
  | KeyError
  | IndexError

text \<open>The decimal rendering of a length, as an f-string produces it.\<close>

fun str_nat :: "nat \<Rightarrow> string" where
  "str_nat n =
     (if n < 10 then [''0123456789'' ! n]
      else str_nat (n div 10) @ [''0123456789'' ! (n mod 10)])"

declare str_nat.simps [simp del]

section \<open>The bit reader used by the parsers\<close>

text \<open>
  \<^verbatim>\<open>muse_parser.py\<close> reads a packet through the \<^verbatim>\<open>bitstring\<close> library:
  \<^verbatim>\<open>bitstring.Bits(bytes=data)\<close> is the sequence of the bits of \<open>data\<close>, each byte
  most significant bit first, and \<^verbatim>\<open>bits.unpack(pattern)\<close> reads the fields of the
  pattern one after the other from the first bit on; \<^verbatim>\<open>uint:n\<close> is an unsigned
  big-endian field of \<open>n\<close> bits and \<^verbatim>\<open>int:n\<close> a two's complement one. A pattern
  that asks for more bits than there are raises the library's read error. The
  pattern string is modelled by the list of its fields; the empty field after the
  last comma of the patterns of \<^verbatim>\<open>muse_parser.py\<close> reads nothing.
\<close>

definition byte_bits :: "byte \<Rightarrow> bool list" where
  "byte_bits b = map (\<lambda>i. bit b (7 - i)) [0..<8]"

definition Bits :: "byte list \<Rightarrow> bool list" where
  "Bits data = concat (map byte_bits data)"

definition uint_of :: "bool list \<Rightarrow> int" where
  "uint_of bs = foldl (\<lambda>acc b. 2 * acc + (if b then 1 else 0)) 0 bs"

definition int_of :: "bool list \<Rightarrow> int" where
  "int_of bs =
     (case bs of
        [] \<Rightarrow> 0
      | s # _ \<Rightarrow> if s then uint_of bs - 2 ^ length bs else uint_of bs)"

datatype token = UInt nat | SInt nat

fun width :: "token \<Rightarrow> nat" where
  "width (UInt n) = n"
| "width (SInt n) = n"

fun read_field :: "token \<Rightarrow> bool list \<Rightarrow> int" where
  "read_field (UInt n) bs = uint_of bs"
| "read_field (SInt n) bs = int_of bs"

fun unpack :: "token list \<Rightarrow> bool list \<Rightarrow> error + int list" where
  "unpack [] bs = Inr []"
| "unpack (f # fs) bs =
     (if length bs < width f then Inl ReadError
      else case unpack fs (drop (width f) bs) of
             Inl e \<Rightarrow> Inl e
           | Inr vs \<Rightarrow> Inr (read_field f (take (width f) bs) # vs))"

section \<open>The packet parsers (\<^verbatim>\<open>muse_parser.py\<close>)\<close>

definition EEG_SCALE_FACTOR :: real where
  "EEG_SCALE_FACTOR = 0.48828125"

definition ACC_SCALE_FACTOR :: real where
  "ACC_SCALE_FACTOR = 0.0000610352"

definition GYRO_SCALE_FACTOR :: real where
  "GYRO_SCALE_FACTOR = 0.0074768"

text \<open>
  \<^verbatim>\<open>raw_data.reshape((3, 3), order='F')\<close>: the entry in row \<open>r\<close> and column \<open>c\<close>
  of the result is element \<open>r + rows * c\<close> of the flat array; numpy raises
  \<^verbatim>\<open>ValueError\<close> when the sizes do not agree.
\<close>

definition reshape_F :: "nat \<Rightarrow> nat \<Rightarrow> 'a list \<Rightarrow> error + 'a list list" where
  "reshape_F rows cols flat =
     (if length flat \<noteq> rows * cols
      then Inl (ValueError ''cannot reshape array'')
      else Inr (map (\<lambda>r. map (\<lambda>c. flat ! (r + rows * c)) [0..<cols]) [0..<rows]))"

definition parse_eeg_packet :: "byte list \<Rightarrow> error + int \<times> real list" where
  "parse_eeg_packet data =
     (if length data \<noteq> 20
      then Inl (ValueError (''EEG packet must be 20 bytes, got '' @ str_nat (length data)))
      else case unpack (UInt 16 # replicate 12 (UInt 12)) (Bits data) of
             Inl e \<Rightarrow> Inl e
           | Inr [] \<Rightarrow> Inl IndexError
           | Inr (packet_index # raw_samples) \<Rightarrow>
               Inr (packet_index,
                    map (\<lambda>raw. EEG_SCALE_FACTOR * (real_of_int raw - 2048)) raw_samples))"

definition parse_acc_packet :: "byte list \<Rightarrow> error + int \<times> real list list" where
  "parse_acc_packet data =
     (if length data \<noteq> 20
      then Inl (ValueError (''Accelerometer packet must be 20 bytes, got ''
                  @ str_nat (length data)))
      else case unpack (UInt 16 # replicate 9 (SInt 16)) (Bits data) of
             Inl e \<Rightarrow> Inl e
           | Inr [] \<Rightarrow> Inl IndexError
           | Inr (packet_index # raw_data) \<Rightarrow>
               (case reshape_F 3 3 (map real_of_int raw_data) of
                  Inl e \<Rightarrow> Inl e
                | Inr samples \<Rightarrow>
                    Inr (packet_index, map (map (\<lambda>v. v * ACC_SCALE_FACTOR)) samples)))"

definition parse_gyro_packet :: "byte list \<Rightarrow> error + int \<times> real list list" where
  "parse_gyro_packet data =
     (if length data \<noteq> 20
      then Inl (ValueError (''Gyroscope packet must be 20 bytes, got ''
                  @ str_nat (length data)))
      else case unpack (UInt 16 # replicate 9 (SInt 16)) (Bits data) of
             Inl e \<Rightarrow> Inl e
           | Inr [] \<Rightarrow> Inl IndexError
           | Inr (packet_index # raw_data) \<Rightarrow>
               (case reshape_F 3 3 (map real_of_int raw_data) of
                  Inl e \<Rightarrow> Inl e
                | Inr samples \<Rightarrow>
                    Inr (packet_index, map (map (\<lambda>v. v * GYRO_SCALE_FACTOR)) samples)))"

section \<open>The packet layout in the words of the specification\<close>

text \<open>
  The specification describes a packet as a big-endian bit string: the first 16 bits
  are the unsigned sequence index, then come bit-packed fields. \<open>be_nat\<close> is the
  number the bytes spell, \<open>packed_uint data off w\<close> the unsigned value of the \<open>w\<close> bits
  that start at bit \<open>off\<close> and \<open>packed_sint\<close> the same bits read as two's complement.
\<close>

definition be_nat :: "byte list \<Rightarrow> nat" where
  "be_nat data = foldl (\<lambda>acc b. 256 * acc + unat b) 0 data"

definition packed_uint :: "byte list \<Rightarrow> nat \<Rightarrow> nat \<Rightarrow> int" where
  "packed_uint data off w =
     int ((be_nat data div 2 ^ (8 * length data - (off + w))) mod 2 ^ w)"

definition packed_sint :: "byte list \<Rightarrow> nat \<Rightarrow> nat \<Rightarrow> int" where
  "packed_sint data off w =
     (let u = packed_uint data off w
      in if 2 ^ (w - 1) \<le> u then u - 2 ^ w else u)"

section \<open>The LSL outlets (\<^verbatim>\<open>muse_lsl_streamer.py\<close>)\<close>

text \<open>
  An outlet of \<^verbatim>\<open>pylsl\<close> is modelled by what the program hands to it: the
  sequence of the calls \<^verbatim>\<open>push_sample(sample, timestamp)\<close>, oldest first. What
  \<^verbatim>\<open>pylsl\<close> does with a sample is outside the model: the conversion to 32-bit
  floats, and the refusal of a sample whose length is not the channel count of the
  stream (the rows that the parsers and the synchronizer produce have that length).
  The attribute \<^verbatim>\<open>_streams_created\<close> is the field \<open>streams_created\<close>; an outlet
  that is \<^verbatim>\<open>None\<close> is \<open>None\<close>.
\<close>

type_synonym outlet = "(real list \<times> real) list"

record MuseLSLStreamer =
  eeg_outlet :: "outlet option"
  acc_outlet :: "outlet option"
  gyro_outlet :: "outlet option"
  streams_created :: bool

definition EEG_SAMPLE_RATE :: real where
  "EEG_SAMPLE_RATE = 256"

definition ACC_SAMPLE_RATE :: real where
  "ACC_SAMPLE_RATE = 52"

definition GYRO_SAMPLE_RATE :: real where
  "GYRO_SAMPLE_RATE = 52"

definition EEG_CHANNEL_NAMES :: "string list" where
  "EEG_CHANNEL_NAMES = [''TP9'', ''AF7'', ''AF8'', ''TP10'']"

definition new_lsl_streamer :: MuseLSLStreamer where
  "new_lsl_streamer =
     \<lparr>eeg_outlet = None, acc_outlet = None, gyro_outlet = None, streams_created = False\<rparr>"

definition create_streams :: "MuseLSLStreamer \<Rightarrow> MuseLSLStreamer" where
  "create_streams s =
     (if streams_created s then s
      else s\<lparr>eeg_outlet := Some [], acc_outlet := Some [], gyro_outlet := Some [],
             streams_created := True\<rparr>)"

text \<open>
  The body shared by the three push methods, which differ in the outlet and in the
  rate only: with more than one row, row \<open>i\<close> of the enumeration is pushed with
  \<open>timestamp + i * time_per_sample\<close>; otherwise \<^verbatim>\<open>samples[0]\<close> is pushed with the
  timestamp, and indexing an empty array raises.
\<close>

definition push_rows :: "real \<Rightarrow> real list list \<Rightarrow> real \<Rightarrow> outlet \<Rightarrow> error + outlet" where
  "push_rows rate samples timestamp out =
     (if length samples > 1 then
        (let time_per_sample = 1 / rate
         in Inr (out @ map (\<lambda>(i, sample). (sample, timestamp + real i * time_per_sample))
                        (enumerate 0 samples)))
      else (case samples of
              [] \<Rightarrow> Inl IndexError
            | sample # _ \<Rightarrow> Inr (out @ [(sample, timestamp)])))"

definition push_eeg_chunk ::
  "real list list \<Rightarrow> real option \<Rightarrow> real \<Rightarrow> MuseLSLStreamer \<Rightarrow> error + MuseLSLStreamer" where
  "push_eeg_chunk samples timestamp now s =
     (if \<not> streams_created s \<or> eeg_outlet s = None
      then Inl (RuntimeError ''LSL streams not created. Call create_streams() first.'')
      else
        (let timestamp = (case timestamp of None \<Rightarrow> now | Some t \<Rightarrow> t)
         in case push_rows EEG_SAMPLE_RATE samples timestamp (the (eeg_outlet s)) of
              Inl e \<Rightarrow> Inl e
            | Inr out \<Rightarrow> Inr (s\<lparr>eeg_outlet := Some out\<rparr>)))"

definition push_acc_chunk ::
  "real list list \<Rightarrow> real option \<Rightarrow> real \<Rightarrow> MuseLSLStreamer \<Rightarrow> error + MuseLSLStreamer" where
  "push_acc_chunk samples timestamp now s =
     (if \<not> streams_created s \<or> acc_outlet s = None
      then Inl (RuntimeError ''LSL streams not created. Call create_streams() first.'')
      else
        (let timestamp = (case timestamp of None \<Rightarrow> now | Some t \<Rightarrow> t)
         in case push_rows ACC_SAMPLE_RATE samples timestamp (the (acc_outlet s)) of
              Inl e \<Rightarrow> Inl e
            | Inr out \<Rightarrow> Inr (s\<lparr>acc_outlet := Some out\<rparr>)))"

definition push_gyro_chunk ::
  "real list list \<Rightarrow> real option \<Rightarrow> real \<Rightarrow> MuseLSLStreamer \<Rightarrow> error + MuseLSLStreamer" where
  "push_gyro_chunk samples timestamp now s =
     (if \<not> streams_created s \<or> gyro_outlet s = None
      then Inl (RuntimeError ''LSL streams not created. Call create_streams() first.'')
      else
        (let timestamp = (case timestamp of None \<Rightarrow> now | Some t \<Rightarrow> t)
         in case push_rows GYRO_SAMPLE_RATE samples timestamp (the (gyro_outlet s)) of
              Inl e \<Rightarrow> Inl e
            | Inr out \<Rightarrow> Inr (s\<lparr>gyro_outlet := Some out\<rparr>)))"

definition close_streams :: "MuseLSLStreamer \<Rightarrow> MuseLSLStreamer" where
  "close_streams s =
     (if \<not> streams_created s then s
      else s\<lparr>eeg_outlet := None, acc_outlet := None, gyro_outlet := None,
             streams_created := False\<rparr>)"

section \<open>The BLE client (\<^verbatim>\<open>muse_bluetooth.py\<close>)\<close>

text \<open>
  The \<^verbatim>\<open>BleakClient\<close> is outside the program. Each call the program awaits on it
  is an entry of a log, with its outcome: \<open>True\<close> when the call returned, \<open>False\<close>
  when it raised. The outcome of a call is given by a parameter \<open>ok\<close>, a function of
  the log so far and of the call, so that every behaviour of the radio link is an
  instance. \<^verbatim>\<open>asyncio.sleep\<close> and the console output are not modelled.
\<close>

datatype ble_call =
    WriteGattChar string "byte list"
  | StopNotify string
  | ClientDisconnect

type_synonym ble_log = "(ble_call \<times> bool) list"

type_synonym ble_env = "ble_log \<Rightarrow> ble_call \<Rightarrow> bool"

definition await :: "ble_env \<Rightarrow> ble_call \<Rightarrow> ble_log \<Rightarrow> bool \<times> ble_log" where
  "await ok c tr = (ok tr c, tr @ [(c, ok tr c)])"

definition CONTROL_UUID :: string where
  "CONTROL_UUID = ''273e0001-4c4d-454d-96be-f03bac821358''"

definition EEG_TP9_UUID :: string where
  "EEG_TP9_UUID = ''273e0003-4c4d-454d-96be-f03bac821358''"

definition EEG_AF7_UUID :: string where
  "EEG_AF7_UUID = ''273e0004-4c4d-454d-96be-f03bac821358''"

definition EEG_AF8_UUID :: string where
  "EEG_AF8_UUID = ''273e0005-4c4d-454d-96be-f03bac821358''"

definition EEG_TP10_UUID :: string where
  "EEG_TP10_UUID = ''273e0006-4c4d-454d-96be-f03bac821358''"

definition ACCELEROMETER_UUID :: string where
  "ACCELEROMETER_UUID = ''273e000a-4c4d-454d-96be-f03bac821358''"

definition GYROSCOPE_UUID :: string where
  "GYROSCOPE_UUID = ''273e0009-4c4d-454d-96be-f03bac821358''"

definition CMD_STOP_STREAM :: "byte list" where
  "CMD_STOP_STREAM = [0x02, 0x68, 0x0a]"

text \<open>
  \<open>client\<close> is \<open>True\<close> when the attribute \<^verbatim>\<open>self.client\<close> is not \<^verbatim>\<open>None\<close>;
  \<open>connected\<close> and \<open>streaming\<close> are \<^verbatim>\<open>_connected\<close> and \<^verbatim>\<open>_streaming\<close>.
\<close>

record MuseBLEClient =
  client :: bool
  connected :: bool
  streaming :: bool

definition new_ble_client :: MuseBLEClient where
  "new_ble_client = \<lparr>client = False, connected = False, streaming = False\<rparr>"

definition stop_streaming ::
  "ble_env \<Rightarrow> MuseBLEClient \<times> ble_log \<Rightarrow> (error + bool) \<times> MuseBLEClient \<times> ble_log" where
  "stop_streaming ok = (\<lambda>(c, tr).
     if \<not> connected c \<or> \<not> client c
     then (Inl (RuntimeError ''Not connected to Muse. Call connect() first.''), c, tr)
     else if \<not> streaming c then (Inr True, c, tr)
     else (case await ok (WriteGattChar CONTROL_UUID CMD_STOP_STREAM) tr of
             (True, tr') \<Rightarrow> (Inr True, c\<lparr>streaming := False\<rparr>, tr')
           | (False, tr') \<Rightarrow> (Inr False, c, tr')))"

text \<open>
  The four EEG unsubscriptions each sit in a \<^verbatim>\<open>try\<close> of their own; the accelerometer
  and the gyroscope share one, so that the gyroscope call is skipped when the
  accelerometer call raises. Every exception raised inside \<^verbatim>\<open>disconnect\<close> is caught
  by one of its handlers, so its result is a state and never an exception; when the
  closing of the link raises, the outer handler is reached before the two flags are
  cleared.
\<close>

definition stop_notify_all :: "ble_env \<Rightarrow> ble_log \<Rightarrow> ble_log" where
  "stop_notify_all ok tr =
     (let tr1 = foldl (\<lambda>l uuid. snd (await ok (StopNotify uuid) l)) tr
                   [EEG_TP9_UUID, EEG_AF7_UUID, EEG_AF8_UUID, EEG_TP10_UUID]
      in case await ok (StopNotify ACCELEROMETER_UUID) tr1 of
           (True, tr2) \<Rightarrow> snd (await ok (StopNotify GYROSCOPE_UUID) tr2)
         | (False, tr2) \<Rightarrow> tr2)"

definition disconnect :: "ble_env \<Rightarrow> MuseBLEClient \<times> ble_log \<Rightarrow> MuseBLEClient \<times> ble_log" where
  "disconnect ok = (\<lambda>(c, tr).
     if \<not> connected c \<or> \<not> client c then (c, tr)
     else
       (case (if streaming c then stop_streaming ok (c, tr) else (Inr True, c, tr)) of
          (Inl e, c1, tr1) \<Rightarrow> (c1, tr1)
        | (Inr _, c1, tr1) \<Rightarrow>
            (case await ok ClientDisconnect (stop_notify_all ok tr1) of
               (True, tr2) \<Rightarrow> (c1\<lparr>connected := False, streaming := False\<rparr>, tr2)
             | (False, tr2) \<Rightarrow> (c1, tr2))))"

section \<open>The coordinator (\<^verbatim>\<open>custom_muse_streamer.py\<close>)\<close>

text \<open>
  The attributes \<^verbatim>\<open>_running\<close>, \<^verbatim>\<open>_keep_alive_task\<close>, \<^verbatim>\<open>_packet_counts\<close>,
  \<^verbatim>\<open>_eeg_buffer\<close> and \<^verbatim>\<open>_eeg_timestamps\<close> are the fields of the same names
  without the underscore. The keep-alive task is \<open>None\<close> before \<^verbatim>\<open>start\<close>, and
  afterwards \<open>Some True\<close> while it runs and \<open>Some False\<close> once cancelled.
\<close>

record CustomMuseStreamer =
  ble_client :: MuseBLEClient
  lsl_streamer :: MuseLSLStreamer
  running :: bool
  keep_alive_task :: "bool option"
  packet_counts :: "(string, nat) fmap"
  eeg_buffer :: "(int, (string, real list) fmap) fmap"
  eeg_timestamps :: "(int, real) fmap"

definition new_streamer :: CustomMuseStreamer where
  "new_streamer =
     \<lparr>ble_client = new_ble_client,
      lsl_streamer = new_lsl_streamer,
      running = False,
      keep_alive_task = None,
      packet_counts = fmap_of_list
        [(''TP9'', 0), (''AF7'', 0), (''AF8'', 0), (''TP10'', 0), (''ACC'', 0), (''GYRO'', 0)],
      eeg_buffer = fmempty,
      eeg_timestamps = fmempty\<rparr>"

text \<open>
  \<^verbatim>\<open>np.column_stack\<close> of one-dimensional arrays: row \<open>k\<close> of the result holds the
  \<open>k\<close>-th entry of each array; arrays of different lengths raise.
\<close>

definition column_stack :: "real list list \<Rightarrow> error + real list list" where
  "column_stack arrays =
     (case arrays of
        [] \<Rightarrow> Inl (ValueError ''need at least one array to concatenate'')
      | a # rest \<Rightarrow>
          if list_all (\<lambda>b. length b = length a) rest
          then Inr (map (\<lambda>k. map (\<lambda>arr. arr ! k) arrays) [0..<length a])
          else Inl (ValueError ''all the input array dimensions must match exactly''))"

text \<open>The four subscripts of the completed frame and their stacking.\<close>

definition combine_channels :: "(string, real list) fmap \<Rightarrow> error + real list list" where
  "combine_channels frame =
     (case fmlookup frame ''TP9'' of None \<Rightarrow> Inl KeyError | Some tp9 \<Rightarrow>
      case fmlookup frame ''AF7'' of None \<Rightarrow> Inl KeyError | Some af7 \<Rightarrow>
      case fmlookup frame ''AF8'' of None \<Rightarrow> Inl KeyError | Some af8 \<Rightarrow>
      case fmlookup frame ''TP10'' of None \<Rightarrow> Inl KeyError | Some tp10 \<Rightarrow>
        column_stack [tp9, af7, af8, tp10])"

text \<open>
  The clean-up at the end of the completion branch:
  \<^verbatim>\<open>sorted(self._eeg_buffer.keys())[:-10]\<close> is the sorted list of the keys without its
  last ten entries, and each of these keys is deleted from both dictionaries.
\<close>

definition delete_old :: "CustomMuseStreamer \<Rightarrow> int \<Rightarrow> CustomMuseStreamer" where
  "delete_old st old_idx =
     st\<lparr>eeg_buffer := fmdrop old_idx (eeg_buffer st),
        eeg_timestamps :=
          (if old_idx |\<in>| fmdom (eeg_timestamps st)
           then fmdrop old_idx (eeg_timestamps st) else eeg_timestamps st)\<rparr>"

definition cleanup_old_buffers :: "CustomMuseStreamer \<Rightarrow> CustomMuseStreamer" where
  "cleanup_old_buffers st =
     (if fcard (fmdom (eeg_buffer st)) > 10 then
        (let keys = sorted_list_of_fset (fmdom (eeg_buffer st));
             oldest_indices = take (length keys - 10) keys
         in foldl delete_old st oldest_indices)
      else st)"

text \<open>
  \<^verbatim>\<open>_process_eeg_packet\<close>. The dictionaries are mutated in place, so a raised
  exception leaves the mutations made before it: the result is the exception, if
  any, and the state.
\<close>

definition process_eeg_packet ::
  "string \<Rightarrow> int \<Rightarrow> real list \<Rightarrow> real \<Rightarrow> CustomMuseStreamer
     \<Rightarrow> error option \<times> CustomMuseStreamer" where
  "process_eeg_packet channel packet_index samples now st =
     (let st1 = (if packet_index |\<notin>| fmdom (eeg_buffer st)
                 then st\<lparr>eeg_buffer := fmupd packet_index fmempty (eeg_buffer st),
                         eeg_timestamps := fmupd packet_index now (eeg_timestamps st)\<rparr>
                 else st)
      in case fmlookup (eeg_buffer st1) packet_index of
           None \<Rightarrow> (Some KeyError, st1)
         | Some frame0 \<Rightarrow>
             (let frame = fmupd channel samples frame0;
                  st2 = st1\<lparr>eeg_buffer := fmupd packet_index frame (eeg_buffer st1)\<rparr>
              in if fcard (fmdom frame) = 4 then
                   (case combine_channels frame of
                      Inl e \<Rightarrow> (Some e, st2)
                    | Inr combined \<Rightarrow>
                        (case fmlookup (eeg_timestamps st2) packet_index of
                           None \<Rightarrow> (Some KeyError, st2)
                         | Some timestamp \<Rightarrow>
                             (case push_eeg_chunk combined (Some timestamp) now
                                     (lsl_streamer st2) of
                                Inl e \<Rightarrow> (Some e, st2)
                              | Inr lsl \<Rightarrow>
                                  (None, cleanup_old_buffers (st2\<lparr>lsl_streamer := lsl\<rparr>)))))
                 else (None, st2)))"

text \<open>
  The notification callbacks. Each one wraps its body in \<^verbatim>\<open>try ... except Exception\<close>
  and prints the exception: the state is what the body had mutated when it raised.
  The four EEG callbacks differ in the channel name only. \<open>count_packet\<close> is the
  increment of the sensor's entry of \<^verbatim>\<open>_packet_counts\<close>.
\<close>

definition count_packet :: "string \<Rightarrow> CustomMuseStreamer \<Rightarrow> CustomMuseStreamer" where
  "count_packet sensor st =
     (case fmlookup (packet_counts st) sensor of
        None \<Rightarrow> st
      | Some n \<Rightarrow> st\<lparr>packet_counts := fmupd sensor (n + 1) (packet_counts st)\<rparr>)"

definition on_eeg_data ::
  "string \<Rightarrow> byte list \<Rightarrow> real \<Rightarrow> CustomMuseStreamer \<Rightarrow> CustomMuseStreamer" where
  "on_eeg_data channel data now st =
     (case parse_eeg_packet data of
        Inl e \<Rightarrow> st
      | Inr (packet_index, samples) \<Rightarrow>
          (case process_eeg_packet channel packet_index samples now st of
             (Some e, st') \<Rightarrow> st'
           | (None, st') \<Rightarrow> count_packet channel st'))"

definition on_eeg_tp9_data :: "byte list \<Rightarrow> real \<Rightarrow> CustomMuseStreamer \<Rightarrow> CustomMuseStreamer" where
  "on_eeg_tp9_data = on_eeg_data ''TP9''"

definition on_eeg_af7_data :: "byte list \<Rightarrow> real \<Rightarrow> CustomMuseStreamer \<Rightarrow> CustomMuseStreamer" where
  "on_eeg_af7_data = on_eeg_data ''AF7''"

definition on_eeg_af8_data :: "byte list \<Rightarrow> real \<Rightarrow> CustomMuseStreamer \<Rightarrow> CustomMuseStreamer" where
  "on_eeg_af8_data = on_eeg_data ''AF8''"

definition on_eeg_tp10_data :: "byte list \<Rightarrow> real \<Rightarrow> CustomMuseStreamer \<Rightarrow> CustomMuseStreamer" where
  "on_eeg_tp10_data = on_eeg_data ''TP10''"

definition on_acc_data :: "byte list \<Rightarrow> real \<Rightarrow> CustomMuseStreamer \<Rightarrow> CustomMuseStreamer" where
  "on_acc_data data now st =
     (case parse_acc_packet data of
        Inl e \<Rightarrow> st
      | Inr (packet_index, samples) \<Rightarrow>
          (case push_acc_chunk samples (Some now) now (lsl_streamer st) of
             Inl e \<Rightarrow> st
           | Inr lsl \<Rightarrow> count_packet ''ACC'' (st\<lparr>lsl_streamer := lsl\<rparr>)))"

definition on_gyro_data :: "byte list \<Rightarrow> real \<Rightarrow> CustomMuseStreamer \<Rightarrow> CustomMuseStreamer" where
  "on_gyro_data data now st =
     (case parse_gyro_packet data of
        Inl e \<Rightarrow> st
      | Inr (packet_index, samples) \<Rightarrow>
          (case push_gyro_chunk samples (Some now) now (lsl_streamer st) of
             Inl e \<Rightarrow> st
           | Inr lsl \<Rightarrow> count_packet ''GYRO'' (st\<lparr>lsl_streamer := lsl\<rparr>)))"

text \<open>
  \<^verbatim>\<open>stop\<close>: nothing when not running; otherwise the flag is cleared, the keep-alive
  task cancelled, the client disconnected and the outlets closed.
\<close>

definition stop :: "ble_env \<Rightarrow> CustomMuseStreamer \<times> ble_log \<Rightarrow> CustomMuseStreamer \<times> ble_log" where
  "stop ok = (\<lambda>(st, tr).
     if \<not> running st then (st, tr)
     else
       (let st1 = st\<lparr>running := False\<rparr>;
            st2 = (case keep_alive_task st1 of
                     None \<Rightarrow> st1
                   | Some _ \<Rightarrow> st1\<lparr>keep_alive_task := Some False\<rparr>);
            (c, tr') = disconnect ok (ble_client st2, tr)
        in (st2\<lparr>ble_client := c, lsl_streamer := close_streams (lsl_streamer st2)\<rparr>, tr')))"

text \<open>
  A sequence of EEG arrivals, each a channel name, a sequence index, the sample vector
  and the clock reading of the call, handed to \<open>process_eeg_packet\<close> one after the
  other; the exceptions raised on the way are collected.
\<close>

fun feed_eeg ::
  "(string \<times> int \<times> real list \<times> real) list \<Rightarrow> CustomMuseStreamer
     \<Rightarrow> error list \<times> CustomMuseStreamer" where
  "feed_eeg [] st = ([], st)"
| "feed_eeg ((channel, packet_index, samples, now) # rest) st =
     (case process_eeg_packet channel packet_index samples now st of
        (None, st') \<Rightarrow> feed_eeg rest st'
      | (Some e, st') \<Rightarrow> (case feed_eeg rest st' of (es, st'') \<Rightarrow> (e # es, st'')))"

section \<open>The recording loop (\<^verbatim>\<open>lsl_utils.py\<close>)\<close>

text \<open>
  A row of a stream's CSV file, without the header line: the sample index, the LSL
  timestamp, the time since the reference event and the channel values.
\<close>

type_synonym row = "nat \<times> real \<times> real \<times> real list"

record SpotifyTrackInfo =
  track_name :: string
  artist_name :: string
  started_at_unix :: real
  started_at_lsl :: real

record RecordingState =
  should_stop :: bool
  play_detected :: bool
  track_info :: "SpotifyTrackInfo option"

record RecordingConfig =
  pre_roll_sec :: real
  post_roll_sec :: real

text \<open>
  The inner loop over \<^verbatim>\<open>zip(chunk, ts)\<close> for one stream: the rows written so far and
  the stream's next sample index are threaded through.
\<close>

fun write_chunk :: "real \<Rightarrow> real \<Rightarrow> (real list \<times> real) list \<Rightarrow> row list \<times> nat \<Rightarrow> row list \<times> nat" where
  "write_chunk play_lsl pre_roll [] (rows, idx) = (rows, idx)"
| "write_chunk play_lsl pre_roll ((sample, tstamp) # rest) (rows, idx) =
     (let rel_t = tstamp - play_lsl
      in if rel_t < - pre_roll then write_chunk play_lsl pre_roll rest (rows, idx)
         else write_chunk play_lsl pre_roll rest
                (rows @ [(idx, tstamp, rel_t, sample)], idx + 1))"

text \<open>
  The loop runs until another activity sets \<^verbatim>\<open>should_stop\<close>. Its input is the
  sequence of the results of \<^verbatim>\<open>inlet.pull_chunk\<close> up to that moment, each with the
  type of its stream; the result maps each stream type to its rows and its next
  sample index. An empty chunk, or a stream that is not among \<open>stream_cfgs\<close>, is
  skipped.
\<close>

definition pull_step ::
  "real \<Rightarrow> real \<Rightarrow> (string, row list \<times> nat) fmap \<Rightarrow> string \<times> real list list \<times> real list
     \<Rightarrow> (string, row list \<times> nat) fmap" where
  "pull_step play_lsl pre_roll writers = (\<lambda>(stype, chunk, ts).
     case fmlookup writers stype of
       None \<Rightarrow> writers
     | Some w \<Rightarrow>
         if chunk = [] then writers
         else fmupd stype (write_chunk play_lsl pre_roll (zip chunk ts) w) writers)"

definition recording_loop ::
  "RecordingState \<Rightarrow> RecordingConfig \<Rightarrow> string list
     \<Rightarrow> (string \<times> real list list \<times> real list) list
     \<Rightarrow> error + (string, row list \<times> nat) fmap" where
  "recording_loop state cfg stream_cfgs pulls =
     (case track_info state of
        None \<Rightarrow> Inl (RuntimeError ''Recording loop started without track_info set.'')
      | Some info \<Rightarrow>
          (let play_lsl = started_at_lsl info;
               pre_roll = pre_roll_sec cfg;
               writers = fmap_of_list (map (\<lambda>k. (k, ([], 0))) stream_cfgs)
           in Inr (foldl (pull_step play_lsl pre_roll) writers pulls)))"

section \<open>The admission rule in the words of the specification\<close>

text \<open>
  The specification keeps a sample with timestamp \<open>t\<close> exactly when
  \<open>t - reference \<ge> - pre_roll\<close>. \<open>admitted\<close> keeps these samples of a sequence, in
  order; \<open>stream_samples\<close> is the sequence of the samples pulled from one stream.
\<close>

definition admitted :: "real \<Rightarrow> real \<Rightarrow> (real list \<times> real) list \<Rightarrow> (real list \<times> real) list" where
  "admitted reference pre_roll samples =
     filter (\<lambda>(sample, t). t - reference \<ge> - pre_roll) samples"

definition stream_samples ::
  "string \<Rightarrow> (string \<times> real list list \<times> real list) list \<Rightarrow> (real list \<times> real) list" where
  "stream_samples stype pulls =
     concat (map (\<lambda>(s, chunk, ts). if s = stype then zip chunk ts else []) pulls)"

section \<open>Notions for stating the behaviour of the synchronizer\<close>

text \<open>
  \<open>pending st i\<close> is the partial frame the table holds for index \<open>i\<close>, empty when
  there is none. \<open>stored channel i samples now st\<close> is the state after the first
  part of \<open>process_eeg_packet\<close>, the store into the table. \<open>frame_samples\<close> is a
  completed frame as the outlet receives it: row \<open>k\<close> holds sample \<open>k\<close> of the four
  channels in the order TP9, AF7, AF8, TP10, with its interpolated timestamp.
  \<open>with_outlets\<close> is a new streamer whose outlets have been created, as the second
  step of \<^verbatim>\<open>start\<close> does.
\<close>

definition pending :: "CustomMuseStreamer \<Rightarrow> int \<Rightarrow> (string, real list) fmap" where
  "pending st i = (case fmlookup (eeg_buffer st) i of None \<Rightarrow> fmempty | Some frame \<Rightarrow> frame)"

definition stored ::
  "string \<Rightarrow> int \<Rightarrow> real list \<Rightarrow> real \<Rightarrow> CustomMuseStreamer \<Rightarrow> CustomMuseStreamer" where
  "stored channel i samples now st =
     st\<lparr>eeg_timestamps :=
          (if i |\<in>| fmdom (eeg_buffer st) then eeg_timestamps st
           else fmupd i now (eeg_timestamps st)),
        eeg_buffer := fmupd i (fmupd channel samples (pending st i)) (eeg_buffer st)\<rparr>"

definition frame_samples ::
  "real list \<Rightarrow> real list \<Rightarrow> real list \<Rightarrow> real list \<Rightarrow> real \<Rightarrow> (real list \<times> real) list" where
  "frame_samples tp9 af7 af8 tp10 T =
     map (\<lambda>k. ([tp9 ! k, af7 ! k, af8 ! k, tp10 ! k], T + real k / 256)) [0..<length tp9]"

definition with_outlets :: CustomMuseStreamer where
  "with_outlets = new_streamer\<lparr>lsl_streamer := create_streams new_lsl_streamer\<rparr>"

text \<open>
  \<open>oldest_indices st\<close> is the list \<^verbatim>\<open>oldest_indices\<close> that the clean-up computes,
  empty when the clean-up does not run.
\<close>

definition oldest_indices :: "CustomMuseStreamer \<Rightarrow> int list" where
  "oldest_indices st =
     (let keys = sorted_list_of_fset (fmdom (eeg_buffer st))
      in if length keys > 10 then take (length keys - 10) keys else [])"

text \<open>
  The input of the retention test of the specification: for each of the sequence
  indices 1 to 15 the samples of three channels arrive and TP10 never does.
\<close>

definition missing_tp10 :: "int \<Rightarrow> (string \<times> int \<times> real list \<times> real) list" where
  "missing_tp10 i =
     [(''TP9'', i, replicate 12 0, real_of_int i),
      (''AF7'', i, replicate 12 0, real_of_int i),
      (''AF8'', i, replicate 12 0, real_of_int i)]"

definition fifteen_incomplete :: "(string \<times> int \<times> real list \<times> real) list" where
  "fifteen_incomplete = concat (map missing_tp10 [1..15])"

text \<open>Sample vectors for examples: twelve times 1, 2, 3 or 4, by channel.\<close>

definition example_samples :: "string \<Rightarrow> real list" where
  "example_samples channel =
     replicate 12 (if channel = ''TP9'' then 1 else if channel = ''AF7'' then 2
                   else if channel = ''AF8'' then 3 else 4)"

text \<open>
  The state of \<open>with_outlets\<close> after the samples of TP9, AF7 and AF8 for index 7 have
  been stored, the first of them at clock reading 10.
\<close>

definition three_arrived :: CustomMuseStreamer where
  "three_arrived =
     with_outlets
       \<lparr>eeg_timestamps := fmupd 7 10 fmempty,
        eeg_buffer :=
          fmupd 7 (fmupd ''AF8'' (example_samples ''AF8'')
                    (fmupd ''AF7'' (example_samples ''AF7'')
                      (fmupd ''TP9'' (example_samples ''TP9'') fmempty))) fmempty\<rparr>"

section \<open>Example links\<close>

text \<open>
  A client that is connected and streaming, a streamer that runs on it, a radio link
  on which every call returns, and one on which every call returns except the closing
  of the link, which raises.
\<close>

definition streaming_client :: MuseBLEClient where
  "streaming_client = \<lparr>client = True, connected = True, streaming = True\<rparr>"

definition running_streamer :: CustomMuseStreamer where
  "running_streamer =
     with_outlets\<lparr>ble_client := streaming_client, running := True,
                  keep_alive_task := Some True\<rparr>"

definition always_ok :: ble_env where
  "always_ok tr c = True"

definition link_close_fails :: ble_env where
  "link_close_fails tr c = (c \<noteq> ClientDisconnect)"

section \<open>The bit reader against the layout of the specification\<close>

text \<open>
  The field that \<open>unpack\<close> reads at a bit offset is the field of the specification at
  that offset: the bits of a byte spell the byte, the bits of a packet spell
  \<open>be_nat\<close>, and a slice of a bit string is a quotient and a remainder of its value.
\<close>

lemma uint_of_snoc: "uint_of (bs @ [b]) = 2 * uint_of bs + (if b then 1 else 0)"
  by (simp add: uint_of_def)

lemma uint_of_append: "uint_of (xs @ ys) = uint_of xs * 2 ^ length ys + uint_of ys"
proof (induction ys rule: rev_induct)
  case Nil
  show ?case by (simp add: uint_of_def)
next
  case (snoc y ys)
  have "uint_of (xs @ ys @ [y]) = 2 * uint_of (xs @ ys) + (if y then 1 else 0)"
    using uint_of_snoc [of "xs @ ys" y] by simp
  then show ?case
    by (simp add: snoc.IH uint_of_snoc algebra_simps)
qed

lemma uint_of_nonneg: "0 \<le> uint_of bs"
  by (induction bs rule: rev_induct) (simp_all add: uint_of_def)

lemma uint_of_less: "uint_of bs < 2 ^ length bs"
proof (induction bs rule: rev_induct)
  case Nil
  show ?case by (simp add: uint_of_def)
next
  case (snoc b bs)
  then show ?case by (simp add: uint_of_snoc)
qed

lemma uint_of_horner: "uint_of bs = horner_sum of_bool 2 (rev bs)"
  by (induction bs rule: rev_induct) (simp_all add: uint_of_snoc, simp add: uint_of_def)

lemma rev_byte_bits: "rev (byte_bits b) = map (bit b) [0..<8]"
  by (simp add: byte_bits_def upt_rec numeral_eq_Suc)

lemma uint_of_byte_bits: "uint_of (byte_bits b) = uint b"
proof -
  have eq: "map (bit b) [0..<8] = map (bit (uint b)) [0..<8]"
    by (rule map_cong) (simp_all add: bit_uint_iff)
  have "uint_of (byte_bits b) = horner_sum of_bool 2 (map (bit b) [0..<8])"
    by (simp add: uint_of_horner rev_byte_bits)
  also have "\<dots> = horner_sum of_bool 2 (map (bit (uint b)) [0..<8])"
    by (simp only: eq)
  also have "\<dots> = take_bit 8 (uint b)"
    by (rule horner_sum_bit_eq_take_bit)
  also have "\<dots> = uint b"
    using uint_bounded [of b] by (simp add: take_bit_eq_mod)
  finally show ?thesis .
qed


lemma length_byte_bits: "length (byte_bits b) = 8"
  by (simp add: byte_bits_def)

lemma length_Bits: "length (Bits data) = 8 * length data"
  by (induction data) (simp_all add: Bits_def length_byte_bits)

lemma be_nat_snoc: "be_nat (data @ [b]) = 256 * be_nat data + unat b"
  by (simp add: be_nat_def)

lemma Bits_snoc: "Bits (data @ [b]) = Bits data @ byte_bits b"
  by (simp add: Bits_def)

lemma uint_of_Bits: "uint_of (Bits data) = int (be_nat data)"
proof (induction data rule: rev_induct)
  case Nil
  show ?case by (simp add: Bits_def be_nat_def uint_of_def)
next
  case (snoc b data)
  show ?case
    by (simp add: Bits_snoc uint_of_append length_byte_bits uint_of_byte_bits
        be_nat_snoc snoc.IH)
qed

lemma uint_of_take_drop:
  assumes "off + w \<le> length bs"
  shows "uint_of (take w (drop off bs)) =
         (uint_of bs div 2 ^ (length bs - (off + w))) mod 2 ^ w"
proof -
  define A where "A = take off bs"
  define F where "F = take w (drop off bs)"
  define R where "R = drop (off + w) bs"
  have split: "bs = A @ F @ R"
    unfolding A_def F_def R_def
    by (metis add.commute append_take_drop_id drop_drop)
  have lenF: "length F = w" and lenR: "length R = length bs - (off + w)"
    using assms by (simp_all add: F_def R_def)
  have "uint_of bs = (uint_of A * 2 ^ w + uint_of F) * 2 ^ length R + uint_of R"
    by (subst split) (simp add: uint_of_append lenF algebra_simps power_add)
  moreover have "0 \<le> uint_of R" "uint_of R < 2 ^ length R"
    by (rule uint_of_nonneg, rule uint_of_less)
  ultimately have "uint_of bs div 2 ^ length R = uint_of A * 2 ^ w + uint_of F"
    by (simp add: div_pos_pos_trivial)
  moreover have "0 \<le> uint_of F" "uint_of F < 2 ^ w"
    using uint_of_nonneg [of F] uint_of_less [of F] by (simp_all add: lenF)
  ultimately show ?thesis
    by (simp add: lenR F_def [symmetric] mod_pos_pos_trivial)
qed

lemma uint_of_field:
  assumes "off + w \<le> 8 * length data"
  shows "uint_of (take w (drop off (Bits data))) = packed_uint data off w"
  using uint_of_take_drop [of off w "Bits data"] assms
  by (simp add: length_Bits uint_of_Bits packed_uint_def zdiv_int zmod_int)


lemma hd_bit_take:
  assumes "bs \<noteq> []"
  shows "hd bs \<longleftrightarrow> 2 ^ (length bs - 1) \<le> uint_of bs"
proof (cases bs)
  case Nil
  with assms show ?thesis by simp
next
  case (Cons s rest)
  have "uint_of bs = uint_of [s] * 2 ^ length rest + uint_of rest"
    using uint_of_append [of "[s]" rest] by (simp add: Cons)
  moreover have "0 \<le> uint_of rest" "uint_of rest < 2 ^ length rest"
    by (rule uint_of_nonneg, rule uint_of_less)
  ultimately show ?thesis
    by (cases s) (simp_all add: Cons uint_of_def)
qed

lemma int_of_field:
  assumes "off + w \<le> 8 * length data" and "0 < w"
  shows "int_of (take w (drop off (Bits data))) = packed_sint data off w"
proof -
  define F where "F = take w (drop off (Bits data))"
  have len: "length F = w"
    using assms by (simp add: F_def length_Bits)
  then have ne: "F \<noteq> []"
    using assms(2) by auto
  have u: "uint_of F = packed_uint data off w"
    unfolding F_def by (rule uint_of_field [OF assms(1)])
  obtain s rest where F: "F = s # rest"
    using ne by (cases F) auto
  have s: "s \<longleftrightarrow> 2 ^ (w - 1) \<le> uint_of F"
    using hd_bit_take [OF ne] by (simp add: F len [symmetric])
  have "int_of F = (if s then uint_of F - 2 ^ length F else uint_of F)"
    by (simp add: int_of_def F)
  also have "\<dots> = (if 2 ^ (w - 1) \<le> uint_of F then uint_of F - 2 ^ w else uint_of F)"
    by (simp only: s len)
  also have "\<dots> = packed_sint data off w"
    by (simp only: packed_sint_def Let_def u)
  finally show ?thesis
    by (simp only: F_def)
qed

lemma replicate_12: "replicate 12 x = [x, x, x, x, x, x, x, x, x, x, x, x]"
  by (simp add: numeral_eq_Suc)

lemma replicate_9: "replicate 9 x = [x, x, x, x, x, x, x, x, x]"
  by (simp add: numeral_eq_Suc)

lemma unpack_eeg:
  assumes "length data = 20"
  shows "unpack (UInt 16 # replicate 12 (UInt 12)) (Bits data) =
         Inr (packed_uint data 0 16 # map (\<lambda>k. packed_uint data (16 + 12 * k) 12) [0..<12])"
proof -
  have f: "\<And>off w. off + w \<le> 160 \<Longrightarrow>
      uint_of (take w (drop off (Bits data))) = packed_uint data off w"
    using uint_of_field [of _ _ data] assms by simp
  have f0: "uint_of (take 16 (Bits data)) = packed_uint data 0 16"
    using f [of 0 16] by simp
  have u: "[0..<12] = [0, 1, 2, 3, 4, 5, 6, 7, 8, 9, 10, 11::nat]"
    by (simp add: upt_rec)
  have fl: "uint_of (drop 148 (Bits data)) = packed_uint data 148 12"
    using f [of 148 12] by (simp add: length_Bits assms)
  show ?thesis
    by (simp add: replicate_12 length_Bits assms f f0 fl u)
qed

lemma unpack_imu:
  assumes "length data = 20"
  shows "unpack (UInt 16 # replicate 9 (SInt 16)) (Bits data) =
         Inr (packed_uint data 0 16 # map (\<lambda>k. packed_sint data (16 + 16 * k) 16) [0..<9])"
proof -
  have f: "\<And>off. off + 16 \<le> 160 \<Longrightarrow>
      int_of (take 16 (drop off (Bits data))) = packed_sint data off 16"
    using int_of_field [of _ 16 data] assms by simp
  have f0: "uint_of (take 16 (Bits data)) = packed_uint data 0 16"
    using uint_of_field [of 0 16 data] assms by simp
  have u: "[0..<9] = [0, 1, 2, 3, 4, 5, 6, 7, 8::nat]"
    by (simp add: upt_rec)
  have fl: "int_of (drop 144 (Bits data)) = packed_sint data 144 16"
    using f [of 144] by (simp add: length_Bits assms)
  show ?thesis
    by (simp add: replicate_9 length_Bits assms f f0 fl u)
qed

section \<open>The layout, byte by byte\<close>

text \<open>
  The fields of the specification in terms of the bytes of a packet: the index is
  the first two bytes, big-endian; two consecutive 12-bit fields share three bytes,
  the first taking the first byte and the upper half of the second, the second the
  lower half of the second byte and the third; a 16-bit field of an accelerometer or
  gyroscope packet is two bytes, read as two's complement.
\<close>

lemma be_nat_append: "be_nat (xs @ ys) = be_nat xs * 256 ^ length ys + be_nat ys"
proof (induction ys rule: rev_induct)
  case Nil
  show ?case by (simp add: be_nat_def)
next
  case (snoc y ys)
  have "be_nat (xs @ ys @ [y]) = 256 * be_nat (xs @ ys) + unat y"
    using be_nat_snoc [of "xs @ ys" y] by simp
  then show ?case
    by (simp add: snoc.IH be_nat_snoc algebra_simps)
qed

lemma be_nat_less: "be_nat data < 256 ^ length data"
proof (induction data rule: rev_induct)
  case Nil
  show ?case by (simp add: be_nat_def)
next
  case (snoc b data)
  have "unat b < 256"
    using unsigned_less [of b, where ?'a = nat] by simp
  with snoc show ?case
    by (simp add: be_nat_snoc)
qed

lemma packed_uint_bytes:
  assumes "a + n \<le> length data"
  shows "packed_uint data (8 * a) (8 * n) = int (be_nat (take n (drop a data)))"
proof -
  define A where "A = take a data"
  define F where "F = take n (drop a data)"
  define R where "R = drop (a + n) data"
  have split: "data = A @ F @ R"
    unfolding A_def F_def R_def by (metis add.commute append_take_drop_id drop_drop)
  have lenF: "length F = n" and lenR: "length R = length data - (a + n)"
    using assms by (simp_all add: F_def R_def)
  have e: "8 * length data - (8 * a + 8 * n) = 8 * length R"
    by (simp add: lenR algebra_simps)
  have p: "(2::nat) ^ (8 * k) = 256 ^ k" for k
    by (simp add: power_mult)
  have "be_nat data = (be_nat A * 256 ^ n + be_nat F) * 256 ^ length R + be_nat R"
    by (subst split) (simp add: be_nat_append lenF algebra_simps power_add)
  moreover have "be_nat R < 256 ^ length R"
    by (rule be_nat_less)
  ultimately have "be_nat data div 256 ^ length R = be_nat A * 256 ^ n + be_nat F"
    by simp
  moreover have "be_nat F < 256 ^ n"
    using be_nat_less [of F] by (simp add: lenF)
  ultimately show ?thesis
    by (simp add: packed_uint_def e p F_def [symmetric])
qed

lemma packet_index_bytes:
  assumes "length data = 20"
  shows "packed_uint data 0 16 = 256 * uint (data ! 0) + uint (data ! 1)"
proof -
  obtain b0 b1 rest where d: "data = b0 # b1 # rest"
    using assms by (cases data; cases "tl data") auto
  have "packed_uint data (8 * 0) (8 * 2) = int (be_nat (take 2 (drop 0 data)))"
    by (rule packed_uint_bytes) (simp add: assms)
  then show ?thesis
    by (simp add: d be_nat_def)
qed

lemma packed_uint_upper:
  assumes "off + w \<le> 8 * length data" and "v \<le> w"
  shows "packed_uint data off v = packed_uint data off w div 2 ^ (w - v)"
proof -
  define r where "r = 8 * length data - (off + w)"
  define N where "N = be_nat data"
  have r': "8 * length data - (off + v) = (w - v) + r"
    using assms by (simp add: r_def)
  have "drop_bit (w - v) (take_bit w (drop_bit r N)) =
        take_bit (w - (w - v)) (drop_bit (w - v) (drop_bit r N))"
    by (rule drop_bit_take_bit)
  also have "\<dots> = take_bit v (drop_bit ((w - v) + r) N)"
    using assms(2) by (simp add: add.commute)
  finally have h: "(N div 2 ^ r mod 2 ^ w) div 2 ^ (w - v) = N div 2 ^ ((w - v) + r) mod 2 ^ v"
    by (simp add: take_bit_eq_mod drop_bit_eq_div)
  have "packed_uint data off v = int (N div 2 ^ ((w - v) + r) mod 2 ^ v)"
    by (simp only: packed_uint_def r' N_def)
  also have "\<dots> = int ((N div 2 ^ r mod 2 ^ w) div 2 ^ (w - v))"
    by (simp only: h)
  also have "\<dots> = int (N div 2 ^ r mod 2 ^ w) div 2 ^ (w - v)"
    by (simp add: zdiv_int)
  also have "int (N div 2 ^ r mod 2 ^ w) = packed_uint data off w"
    by (simp only: packed_uint_def r_def N_def)
  finally show ?thesis .
qed

lemma packed_uint_lower:
  assumes "off + w \<le> 8 * length data" and "v \<le> w"
  shows "packed_uint data (off + (w - v)) v = packed_uint data off w mod 2 ^ v"
proof -
  define r where "r = 8 * length data - (off + w)"
  define N where "N = be_nat data"
  have r': "8 * length data - (off + (w - v) + v) = r"
    using assms by (simp add: r_def)
  have "take_bit v (take_bit w (drop_bit r N)) = take_bit v (drop_bit r N)"
    using assms(2) by (simp add: min_def)
  then have h: "(N div 2 ^ r mod 2 ^ w) mod 2 ^ v = N div 2 ^ r mod 2 ^ v"
    by (simp add: take_bit_eq_mod drop_bit_eq_div)
  have "packed_uint data (off + (w - v)) v = int (N div 2 ^ r mod 2 ^ v)"
    by (simp only: packed_uint_def r' N_def)
  also have "\<dots> = int ((N div 2 ^ r mod 2 ^ w) mod 2 ^ v)"
    by (simp only: h)
  also have "\<dots> = int (N div 2 ^ r mod 2 ^ w) mod 2 ^ v"
    by (simp add: zmod_int)
  also have "int (N div 2 ^ r mod 2 ^ w) = packed_uint data off w"
    by (simp only: packed_uint_def r_def N_def)
  finally show ?thesis .
qed

lemma split_upper: "(256 * x + y) div 16 = 16 * x + y div (16::int)"
proof -
  have "256 * x + y = y + 16 * (16 * x)"
    by simp
  then have "(256 * x + y) div 16 = (y + 16 * (16 * x)) div 16"
    by (simp only:)
  also have "\<dots> = 16 * x + y div 16"
    by (rule div_mult_self2) simp
  finally show ?thesis .
qed

lemma split_lower:
  assumes "0 \<le> y" and "y < 256"
  shows "(256 * x + y) mod 4096 = 256 * (x mod 16) + (y::int)"
proof -
  define q where "q = x div 16"
  define m where "m = x mod 16"
  have x: "x = 16 * q + m"
    by (simp add: q_def m_def)
  have m: "0 \<le> m" "m < 16"
    by (simp_all add: m_def)
  have "256 * x + y = (256 * m + y) + 4096 * q"
    by (simp add: x)
  then have "(256 * x + y) mod 4096 = ((256 * m + y) + 4096 * q) mod 4096"
    by (simp only:)
  also have "\<dots> = (256 * m + y) mod 4096"
    by (rule mod_mult_self2)
  also have "\<dots> = 256 * m + y"
    using m assms by (intro mod_pos_pos_trivial) linarith+
  finally show ?thesis
    by (simp only: m_def)
qed

lemma two_bytes:
  assumes "a + 2 \<le> length data"
  shows "packed_uint data (8 * a) 16 = 256 * uint (data ! a) + uint (data ! (a + 1))"
proof -
  have t: "take 2 (drop a data) = [data ! a, data ! (a + 1)]"
    using assms by (simp add: list_eq_iff_nth_eq less_Suc_eq numeral_2_eq_2)
  have "packed_uint data (8 * a) (8 * 2) = int (be_nat (take 2 (drop a data)))"
    by (rule packed_uint_bytes [OF assms])
  then show ?thesis
    by (simp add: t be_nat_def)
qed

lemma eeg_fields_bytes:
  assumes "length data = 20" and "j < 6"
  shows "packed_uint data (16 + 12 * (2 * j)) 12 =
           16 * uint (data ! (2 + 3 * j)) + uint (data ! (3 + 3 * j)) div 16"
    and "packed_uint data (16 + 12 * (2 * j + 1)) 12 =
           256 * (uint (data ! (3 + 3 * j)) mod 16) + uint (data ! (4 + 3 * j))"
proof -
  have b: "0 \<le> uint (data ! k)" "uint (data ! k) < 256" for k
    using uint_bounded [of "data ! k"] by simp_all
  have "packed_uint data (8 * (2 + 3 * j)) 12 =
        packed_uint data (8 * (2 + 3 * j)) 16 div 2 ^ (16 - 12)"
    using assms by (intro packed_uint_upper) simp_all
  also have "\<dots> = (256 * uint (data ! (2 + 3 * j)) + uint (data ! (2 + 3 * j + 1))) div 16"
    using assms by (subst two_bytes) simp_all
  also have "\<dots> = 16 * uint (data ! (2 + 3 * j)) + uint (data ! (2 + 3 * j + 1)) div 16"
    by (rule split_upper)
  also have "2 + 3 * j + 1 = 3 + 3 * j"
    by simp
  finally show "packed_uint data (16 + 12 * (2 * j)) 12 =
           16 * uint (data ! (2 + 3 * j)) + uint (data ! (3 + 3 * j)) div 16"
    by (simp add: algebra_simps)
  have "packed_uint data (8 * (3 + 3 * j) + (16 - 12)) 12 =
        packed_uint data (8 * (3 + 3 * j)) 16 mod 2 ^ 12"
    using assms by (intro packed_uint_lower) simp_all
  also have "\<dots> = (256 * uint (data ! (3 + 3 * j)) + uint (data ! (3 + 3 * j + 1))) mod 4096"
    using assms by (subst two_bytes) simp_all
  also have "\<dots> = 256 * (uint (data ! (3 + 3 * j)) mod 16) + uint (data ! (3 + 3 * j + 1))"
    by (rule split_lower) (rule b)+
  also have "3 + 3 * j + 1 = 4 + 3 * j"
    by simp
  finally show "packed_uint data (16 + 12 * (2 * j + 1)) 12 =
           256 * (uint (data ! (3 + 3 * j)) mod 16) + uint (data ! (4 + 3 * j))"
    by (simp add: algebra_simps)
qed

lemma imu_fields_bytes:
  assumes "length data = 20" and "k < 9"
  shows "packed_sint data (16 + 16 * k) 16 =
           (let u = 256 * uint (data ! (2 + 2 * k)) + uint (data ! (3 + 2 * k))
            in if 32768 \<le> u then u - 65536 else u)"
proof -
  have "packed_uint data (8 * (2 + 2 * k)) 16 =
        256 * uint (data ! (2 + 2 * k)) + uint (data ! (2 + 2 * k + 1))"
    using assms by (intro two_bytes) simp
  moreover have "2 + 2 * k + 1 = 3 + 2 * k" "8 * (2 + 2 * k) = 16 + 16 * k"
    by simp_all
  ultimately have "packed_uint data (16 + 16 * k) 16 =
        256 * uint (data ! (2 + 2 * k)) + uint (data ! (3 + 2 * k))"
    by (simp only:)
  then show ?thesis
    by (simp add: packed_sint_def Let_def)
qed

section \<open>The EEG decoder\<close>

text \<open>
  Claim C3. For every input of 20 bytes \<open>parse_eeg_packet\<close> returns the first 16 bits
  as the unsigned sequence index and, for each of the 12 following 12-bit unsigned
  fields \<open>raw\<close>, the value \<open>0.48828125 * (raw - 2048)\<close>. The index lies in
  \<open>0..65535\<close>, every raw field in \<open>0..4095\<close>, and a raw field of 2048 decodes to
  exactly 0.
\<close>

theorem parse_eeg_packet_layout:
  assumes "length data = 20"
  shows "parse_eeg_packet data =
           Inr (packed_uint data 0 16,
                map (\<lambda>k. 0.48828125 * (real_of_int (packed_uint data (16 + 12 * k) 12) - 2048))
                  [0..<12])
         \<and> 0 \<le> packed_uint data 0 16 \<and> packed_uint data 0 16 < 65536
         \<and> (\<forall>k<12. 0 \<le> packed_uint data (16 + 12 * k) 12
                  \<and> packed_uint data (16 + 12 * k) 12 < 4096)
         \<and> (\<forall>k<12. packed_uint data (16 + 12 * k) 12 = 2048 \<longrightarrow>
                  snd (projr (parse_eeg_packet data)) ! k = 0)"
proof -
  have p: "parse_eeg_packet data =
           Inr (packed_uint data 0 16,
                map (\<lambda>k. 0.48828125 * (real_of_int (packed_uint data (16 + 12 * k) 12) - 2048))
                  [0..<12])"
    by (simp add: parse_eeg_packet_def assms unpack_eeg [OF assms] EEG_SCALE_FACTOR_def o_def del: unpack.simps)
  have b: "\<And>off w. 0 \<le> packed_uint data off w \<and> packed_uint data off w < 2 ^ w"
    by (simp add: packed_uint_def)
  have z: "\<forall>k<12. packed_uint data (16 + 12 * k) 12 = 2048 \<longrightarrow>
                  snd (projr (parse_eeg_packet data)) ! k = 0"
    by (simp add: p)
  show ?thesis
    using p b [of 0 16] b [of _ 12] z by simp
qed

text \<open>
  A packet with index 5 whose first four raw fields are 2048, 2049, 4095 and 0.
\<close>

theorem parse_eeg_packet_layout_witness:
  "length [0x00, 0x05, 0x80, 0x08, 0x01, 0xFF, 0xF0, 0x00, 0x80, 0x08,
           0x00, 0x80, 0x08, 0x00, 0x80, 0x08, 0x00, 0x80, 0x08, 0x00 :: byte] = 20
   \<and> parse_eeg_packet [0x00, 0x05, 0x80, 0x08, 0x01, 0xFF, 0xF0, 0x00, 0x80, 0x08,
           0x00, 0x80, 0x08, 0x00, 0x80, 0x08, 0x00, 0x80, 0x08, 0x00]
     = Inr (5, [0, 0.48828125, 999.51171875, -1000, 0, 0, 0, 0, 0, 0, 0, 0])"
  using parse_eeg_packet_layout [of "[0x00, 0x05, 0x80, 0x08, 0x01, 0xFF, 0xF0, 0x00, 0x80, 0x08,
           0x00, 0x80, 0x08, 0x00, 0x80, 0x08, 0x00, 0x80, 0x08, 0x00]"]
  by (simp add: packed_uint_def be_nat_def upt_rec)

section \<open>The accelerometer and gyroscope decoders\<close>

lemma reshape_F_9:
  "reshape_F 3 3 [v0, v1, v2, v3, v4, v5, v6, v7, v8] =
   Inr [[v0, v3, v6], [v1, v4, v7], [v2, v5, v8]]"
  by (simp add: reshape_F_def upt_rec)

text \<open>
  Claim C4. For every accelerometer or gyroscope packet of 20 bytes whose nine signed
  16-bit fields after the sequence index are, in packet order,
  \<open>[x1, x2, x3, y1, y2, y3, z1, z2, z3]\<close>, the decoder returns the three rows
  \<open>[x1, y1, z1]\<close>, \<open>[x2, y2, z2]\<close>, \<open>[x3, y3, z3]\<close>, each value scaled by
  \<open>6.10352e-5\<close> for the accelerometer and by \<open>7.4768e-3\<close> for the gyroscope.
\<close>

theorem parse_imu_packet_column_major:
  assumes "length data = 20"
      and "map (\<lambda>k. packed_sint data (16 + 16 * k) 16) [0..<9] =
           [x1, x2, x3, y1, y2, y3, z1, z2, z3]"
  shows "parse_acc_packet data =
           Inr (packed_uint data 0 16,
                [[real_of_int x1 * (6.10352 / 10 ^ 5), real_of_int y1 * (6.10352 / 10 ^ 5),
                  real_of_int z1 * (6.10352 / 10 ^ 5)],
                 [real_of_int x2 * (6.10352 / 10 ^ 5), real_of_int y2 * (6.10352 / 10 ^ 5),
                  real_of_int z2 * (6.10352 / 10 ^ 5)],
                 [real_of_int x3 * (6.10352 / 10 ^ 5), real_of_int y3 * (6.10352 / 10 ^ 5),
                  real_of_int z3 * (6.10352 / 10 ^ 5)]])
         \<and> parse_gyro_packet data =
           Inr (packed_uint data 0 16,
                [[real_of_int x1 * (7.4768 / 10 ^ 3), real_of_int y1 * (7.4768 / 10 ^ 3),
                  real_of_int z1 * (7.4768 / 10 ^ 3)],
                 [real_of_int x2 * (7.4768 / 10 ^ 3), real_of_int y2 * (7.4768 / 10 ^ 3),
                  real_of_int z2 * (7.4768 / 10 ^ 3)],
                 [real_of_int x3 * (7.4768 / 10 ^ 3), real_of_int y3 * (7.4768 / 10 ^ 3),
                  real_of_int z3 * (7.4768 / 10 ^ 3)]])"
proof -
  have u: "unpack (UInt 16 # replicate 9 (SInt 16)) (Bits data) =
           Inr (packed_uint data 0 16 # [x1, x2, x3, y1, y2, y3, z1, z2, z3])"
    by (simp only: unpack_imu [OF assms(1)] assms(2))
  show ?thesis
    by (simp add: parse_acc_packet_def parse_gyro_packet_def assms(1) u reshape_F_9
        ACC_SCALE_FACTOR_def GYRO_SCALE_FACTOR_def del: unpack.simps)
qed

text \<open>
  A packet with index 7 and the fields 16384, 2, 3, -1, 5, 6, -32768, 8, 9.
\<close>

theorem parse_imu_packet_column_major_witness:
  "length [0x00, 0x07, 0x40, 0x00, 0x00, 0x02, 0x00, 0x03, 0xFF, 0xFF,
           0x00, 0x05, 0x00, 0x06, 0x80, 0x00, 0x00, 0x08, 0x00, 0x09 :: byte] = 20
   \<and> map (\<lambda>k. packed_sint [0x00, 0x07, 0x40, 0x00, 0x00, 0x02, 0x00, 0x03, 0xFF, 0xFF,
           0x00, 0x05, 0x00, 0x06, 0x80, 0x00, 0x00, 0x08, 0x00, 0x09] (16 + 16 * k) 16) [0..<9]
     = [16384, 2, 3, - 1, 5, 6, - 32768, 8, 9]
   \<and> parse_acc_packet [0x00, 0x07, 0x40, 0x00, 0x00, 0x02, 0x00, 0x03, 0xFF, 0xFF,
           0x00, 0x05, 0x00, 0x06, 0x80, 0x00, 0x00, 0x08, 0x00, 0x09]
     = Inr (7, [[1.0000007168, - 0.0000610352, - 2.0000014336],
                [0.0001220704, 0.000305176, 0.0004882816],
                [0.0001831056, 0.0003662112, 0.0005493168]])"
proof -
  let ?pkt = "[0x00, 0x07, 0x40, 0x00, 0x00, 0x02, 0x00, 0x03, 0xFF, 0xFF,
           0x00, 0x05, 0x00, 0x06, 0x80, 0x00, 0x00, 0x08, 0x00, 0x09 :: byte]"
  have l: "length ?pkt = 20" by simp
  have f: "map (\<lambda>k. packed_sint ?pkt (16 + 16 * k) 16) [0..<9]
           = [16384, 2, 3, - 1, 5, 6, - 32768, 8, 9]"
    by (simp add: packed_sint_def packed_uint_def be_nat_def upt_rec Let_def)
  have i: "packed_uint ?pkt 0 16 = 7"
    by (simp add: packed_uint_def be_nat_def)
  show ?thesis
    using parse_imu_packet_column_major [OF l f] l f by (simp add: i)
qed

section \<open>Packets of the wrong length\<close>

text \<open>
  Claim C8. For every decoder and every input whose length is not 20, the decoder
  raises \<^verbatim>\<open>ValueError\<close> and returns no decoded value, and the notification
  callback that made the call leaves the whole state of the streamer as it was: no
  pending frame is created or changed, nothing is pushed to an outlet and no packet
  is counted.
\<close>

theorem malformed_length_rejected:
  assumes "length data \<noteq> 20"
  shows "parse_eeg_packet data =
           Inl (ValueError (''EEG packet must be 20 bytes, got '' @ str_nat (length data)))
       \<and> parse_acc_packet data =
           Inl (ValueError (''Accelerometer packet must be 20 bytes, got ''
                  @ str_nat (length data)))
       \<and> parse_gyro_packet data =
           Inl (ValueError (''Gyroscope packet must be 20 bytes, got '' @ str_nat (length data)))
       \<and> on_eeg_tp9_data data now st = st
       \<and> on_eeg_af7_data data now st = st
       \<and> on_eeg_af8_data data now st = st
       \<and> on_eeg_tp10_data data now st = st
       \<and> on_acc_data data now st = st
       \<and> on_gyro_data data now st = st"
  using assms
  by (simp add: parse_eeg_packet_def parse_acc_packet_def parse_gyro_packet_def
      on_eeg_tp9_data_def on_eeg_af7_data_def on_eeg_af8_data_def on_eeg_tp10_data_def
      on_eeg_data_def on_acc_data_def on_gyro_data_def)

text \<open>Inputs of 3 and of 21 bytes.\<close>

theorem malformed_length_rejected_witness:
  "length [0x00, 0x01, 0x02 :: byte] \<noteq> 20
   \<and> parse_eeg_packet [0x00, 0x01, 0x02] = Inl (ValueError ''EEG packet must be 20 bytes, got 3'')
   \<and> parse_acc_packet (replicate 21 0)
       = Inl (ValueError ''Accelerometer packet must be 20 bytes, got 21'')
   \<and> on_eeg_tp9_data [0x00, 0x01, 0x02] 1.5 new_streamer = new_streamer"
  using malformed_length_rejected [of "[0x00, 0x01, 0x02]" "1.5" new_streamer]
    malformed_length_rejected [of "replicate 21 0"]
  by (simp add: str_nat.simps)

section \<open>Timestamps of a pushed block\<close>

lemma map_enumerate_nth:
  "map (\<lambda>(i, x). f i x) (enumerate 0 xs) = map (\<lambda>k. f k (xs ! k)) [0..<length xs]"
proof (rule nth_equalityI)
  show "length (map (\<lambda>(i, x). f i x) (enumerate 0 xs)) =
        length (map (\<lambda>k. f k (xs ! k)) [0..<length xs])"
    by simp
next
  fix i
  assume "i < length (map (\<lambda>(i, x). f i x) (enumerate 0 xs))"
  then have "i < length xs"
    by simp
  then show "map (\<lambda>(i, x). f i x) (enumerate 0 xs) ! i =
             map (\<lambda>k. f k (xs ! k)) [0..<length xs] ! i"
    by (simp add: nth_enumerate_eq)
qed

lemma push_rows_stamps:
  assumes "samples \<noteq> []"
  shows "push_rows rate samples T out =
         Inr (out @ map (\<lambda>k. (samples ! k, T + real k / rate)) [0..<length samples])"
proof (cases "length samples > 1")
  case True
  then show ?thesis
    using map_enumerate_nth [of "\<lambda>i sample. (sample, T + real i * (1 / rate))" samples]
    by (simp add: push_rows_def)
next
  case False
  with assms obtain x where "samples = [x]"
    by (cases samples) auto
  then show ?thesis
    by (simp add: push_rows_def)
qed

text \<open>
  Claim C6. For every block of \<open>N \<ge> 1\<close> samples pushed with reference timestamp \<open>T\<close>,
  sample \<open>k\<close> (counted from 0) is pushed with the timestamp \<open>T + k / R\<close>, where the
  rate \<open>R\<close> is 256 for the EEG outlet and 52 for the accelerometer and gyroscope
  outlets; a block of one sample is pushed with \<open>T\<close> itself, and a block of 12 EEG
  samples with \<open>T, T + 1/256, ..., T + 11/256\<close>.
\<close>

theorem push_chunk_timestamps:
  assumes "streams_created s"
      and "eeg_outlet s = Some oe" and "acc_outlet s = Some oa" and "gyro_outlet s = Some og"
      and "samples \<noteq> []"
  shows "push_eeg_chunk samples (Some T) now s =
           Inr (s\<lparr>eeg_outlet :=
                  Some (oe @ map (\<lambda>k. (samples ! k, T + real k / 256)) [0..<length samples])\<rparr>)
       \<and> push_acc_chunk samples (Some T) now s =
           Inr (s\<lparr>acc_outlet :=
                  Some (oa @ map (\<lambda>k. (samples ! k, T + real k / 52)) [0..<length samples])\<rparr>)
       \<and> push_gyro_chunk samples (Some T) now s =
           Inr (s\<lparr>gyro_outlet :=
                  Some (og @ map (\<lambda>k. (samples ! k, T + real k / 52)) [0..<length samples])\<rparr>)
       \<and> (length samples = 1 \<longrightarrow>
            push_eeg_chunk samples (Some T) now s =
              Inr (s\<lparr>eeg_outlet := Some (oe @ [(samples ! 0, T)])\<rparr>))
       \<and> (length samples = 12 \<longrightarrow>
            map snd (map (\<lambda>k. (samples ! k, T + real k / 256)) [0..<length samples]) =
              [T, T + 1 / 256, T + 2 / 256, T + 3 / 256, T + 4 / 256, T + 5 / 256, T + 6 / 256,
               T + 7 / 256, T + 8 / 256, T + 9 / 256, T + 10 / 256, T + 11 / 256])"
proof -
  have e: "push_eeg_chunk samples (Some T) now s =
           Inr (s\<lparr>eeg_outlet :=
                  Some (oe @ map (\<lambda>k. (samples ! k, T + real k / 256)) [0..<length samples])\<rparr>)"
    using assms by (simp add: push_eeg_chunk_def push_rows_stamps EEG_SAMPLE_RATE_def)
  have a: "push_acc_chunk samples (Some T) now s =
           Inr (s\<lparr>acc_outlet :=
                  Some (oa @ map (\<lambda>k. (samples ! k, T + real k / 52)) [0..<length samples])\<rparr>)"
    using assms by (simp add: push_acc_chunk_def push_rows_stamps ACC_SAMPLE_RATE_def)
  have g: "push_gyro_chunk samples (Some T) now s =
           Inr (s\<lparr>gyro_outlet :=
                  Some (og @ map (\<lambda>k. (samples ! k, T + real k / 52)) [0..<length samples])\<rparr>)"
    using assms by (simp add: push_gyro_chunk_def push_rows_stamps GYRO_SAMPLE_RATE_def)
  have one: "length samples = 1 \<longrightarrow>
            push_eeg_chunk samples (Some T) now s =
              Inr (s\<lparr>eeg_outlet := Some (oe @ [(samples ! 0, T)])\<rparr>)"
    by (simp add: e)
  have twelve: "length samples = 12 \<longrightarrow>
            map snd (map (\<lambda>k. (samples ! k, T + real k / 256)) [0..<length samples]) =
              [T, T + 1 / 256, T + 2 / 256, T + 3 / 256, T + 4 / 256, T + 5 / 256, T + 6 / 256,
               T + 7 / 256, T + 8 / 256, T + 9 / 256, T + 10 / 256, T + 11 / 256]"
    by (simp add: upt_rec o_def)
  show ?thesis
    using e a g one twelve by blast
qed

text \<open>A block of three rows pushed to freshly created outlets at \<open>T = 10\<close>.\<close>

theorem push_chunk_timestamps_witness:
  "streams_created (create_streams new_lsl_streamer)
   \<and> eeg_outlet (create_streams new_lsl_streamer) = Some []
   \<and> acc_outlet (create_streams new_lsl_streamer) = Some []
   \<and> gyro_outlet (create_streams new_lsl_streamer) = Some []
   \<and> [[1, 2, 3, 4], [5, 6, 7, 8], [9, 10, 11, 12 :: real]] \<noteq> []
   \<and> push_eeg_chunk [[1, 2, 3, 4], [5, 6, 7, 8], [9, 10, 11, 12]] (Some 10) 11
        (create_streams new_lsl_streamer)
     = Inr ((create_streams new_lsl_streamer)
         \<lparr>eeg_outlet := Some [([1, 2, 3, 4], 10), ([5, 6, 7, 8], 10 + 1 / 256),
                               ([9, 10, 11, 12], 10 + 2 / 256)]\<rparr>)"
  using push_chunk_timestamps [of "create_streams new_lsl_streamer" "[]" "[]" "[]"
      "[[1, 2, 3, 4], [5, 6, 7, 8], [9, 10, 11, 12]]" 10 11]
  by (simp add: create_streams_def new_lsl_streamer_def upt_rec)

text \<open>An empty block has no first row: the subscript \<^verbatim>\<open>samples[0]\<close> raises.\<close>

lemma push_rows_empty: "push_rows rate [] T out = Inl IndexError"
  by (simp add: push_rows_def)

section \<open>Admission of samples by the recording loop\<close>

lemma write_chunk_rows:
  "write_chunk play pre chunk (rows, idx) =
     (rows @ map (\<lambda>(k, sample, t). (k, t, t - play, sample))
               (enumerate idx (admitted play pre chunk)),
      idx + length (admitted play pre chunk))"
proof (induction chunk arbitrary: rows idx)
  case Nil
  show ?case by (simp add: admitted_def)
next
  case (Cons x chunk)
  obtain sample t where x: "x = (sample, t)"
    by (cases x)
  show ?case
  proof (cases "t - play < - pre")
    case True
    then show ?thesis
      using Cons.IH [of rows idx] by (simp add: x admitted_def)
  next
    case False
    then show ?thesis
      using Cons.IH [of "rows @ [(idx, t, t - play, sample)]" "Suc idx"]
      by (simp add: x admitted_def)
  qed
qed

lemma write_chunk_Nil: "write_chunk play pre [] w = w"
  by (cases w) simp

lemma admitted_append:
  "admitted play pre (xs @ ys) = admitted play pre xs @ admitted play pre ys"
  by (simp add: admitted_def)

lemma write_chunk_append:
  "write_chunk play pre (xs @ ys) w = write_chunk play pre ys (write_chunk play pre xs w)"
proof (cases w)
  case (Pair rows idx)
  show ?thesis
    by (simp add: Pair write_chunk_rows admitted_append enumerate_append_eq add.commute)
qed

lemma stream_samples_Cons:
  "stream_samples stype ((s, chunk, ts) # pulls) =
     (if s = stype then zip chunk ts else []) @ stream_samples stype pulls"
  by (simp add: stream_samples_def)

lemma pull_step_lookup:
  "fmlookup (pull_step play pre writers (s, chunk, ts)) stype =
     (case fmlookup writers stype of
        None \<Rightarrow> None
      | Some w \<Rightarrow> Some (if s = stype then write_chunk play pre (zip chunk ts) w else w))"
  by (cases "fmlookup writers s"; cases "chunk = []")
     (auto simp: pull_step_def split: option.splits)

lemma foldl_pull_step_lookup:
  assumes "fmlookup writers stype = Some w"
  shows "fmlookup (foldl (pull_step play pre) writers pulls) stype =
         Some (write_chunk play pre (stream_samples stype pulls) w)"
  using assms
proof (induction pulls arbitrary: writers w)
  case Nil
  then show ?case by (simp add: stream_samples_def write_chunk_Nil)
next
  case (Cons p pulls)
  obtain s chunk ts where p: "p = (s, chunk, ts)"
    by (cases p)
  have step: "fmlookup (pull_step play pre writers (s, chunk, ts)) stype =
        Some (if s = stype then write_chunk play pre (zip chunk ts) w else w)"
    by (simp add: pull_step_lookup Cons.prems)
  show ?case
    using Cons.IH [OF step]
    by (simp add: p stream_samples_Cons write_chunk_append write_chunk_Nil)
qed

text \<open>
  Claim C7. Once the reference event is set, the recording loop returns without an
  error and, for every recorded stream, writes a row for a pulled sample with
  timestamp \<open>t\<close> exactly when \<open>t - reference \<ge> - pre_roll\<close>, the boundary included;
  the rows are the admitted samples in the order of arrival, numbered from 0, and
  nothing is written for a rejected sample.
\<close>

theorem recording_loop_admission:
  assumes "track_info state = Some info" and "stype \<in> set stream_cfgs"
  shows "\<exists>writers rows.
           recording_loop state cfg stream_cfgs pulls = Inr writers
         \<and> fmlookup writers stype = Some (rows, length rows)
         \<and> rows = map (\<lambda>(k, sample, t). (k, t, t - started_at_lsl info, sample))
                    (enumerate 0 (admitted (started_at_lsl info) (pre_roll_sec cfg)
                                    (stream_samples stype pulls)))
         \<and> (\<forall>sample t. (sample, t) \<in> set (stream_samples stype pulls) \<longrightarrow>
               ((\<exists>k. (k, t, t - started_at_lsl info, sample) \<in> set rows)
                \<longleftrightarrow> t - started_at_lsl info \<ge> - pre_roll_sec cfg))"
proof -
  define play where "play = started_at_lsl info"
  define pre where "pre = pre_roll_sec cfg"
  define W where "W = fmap_of_list (map (\<lambda>k. (k, ([] :: row list, 0 :: nat))) stream_cfgs)"
  define adm where "adm = admitted play pre (stream_samples stype pulls)"
  define rows where
    "rows = map (\<lambda>(k, sample, t). (k, t, t - play, sample)) (enumerate 0 adm)"
  have W: "fmlookup W stype = Some ([], 0)"
    using assms(2) by (simp add: W_def fmlookup_of_list map_of_map_restrict)
  have r: "recording_loop state cfg stream_cfgs pulls = Inr (foldl (pull_step play pre) W pulls)"
    by (simp add: recording_loop_def assms(1) play_def pre_def W_def)
  have l: "fmlookup (foldl (pull_step play pre) W pulls) stype = Some (rows, length rows)"
    by (simp add: foldl_pull_step_lookup [OF W] write_chunk_rows rows_def adm_def)
  have iff: "(\<exists>k. (k, t, t - play, sample) \<in> set rows) \<longleftrightarrow> t - play \<ge> - pre"
    if "(sample, t) \<in> set (stream_samples stype pulls)" for sample t
  proof -
    have "(\<exists>k. (k, t, t - play, sample) \<in> set rows) \<longleftrightarrow> (sample, t) \<in> set adm"
    proof
      assume "\<exists>k. (k, t, t - play, sample) \<in> set rows"
      then show "(sample, t) \<in> set adm"
        by (auto simp: rows_def enumerate_eq_zip dest: set_zip_rightD)
    next
      assume "(sample, t) \<in> set adm"
      then obtain i where "i < length adm" "adm ! i = (sample, t)"
        by (auto simp: in_set_conv_nth)
      then have "enumerate 0 adm ! i = (i, sample, t)" "i < length (enumerate 0 adm)"
        by (simp_all add: nth_enumerate_eq)
      then have "(i, sample, t) \<in> set (enumerate 0 adm)"
        by (metis nth_mem)
      then have "(i, t, t - play, sample) \<in> set rows"
        by (force simp: rows_def)
      then show "\<exists>k. (k, t, t - play, sample) \<in> set rows" ..
    qed
    also have "\<dots> \<longleftrightarrow> t - play \<ge> - pre"
      using that by (simp add: adm_def admitted_def)
    finally show ?thesis .
  qed
  show ?thesis
    using r l iff unfolding rows_def adm_def play_def pre_def by blast
qed


text \<open>
  Reference time 100 and a pre-roll of 2 seconds: the sample at 97.5 is dropped, the
  samples at 98 and at 98.5 are written with the indices 0 and 1.
\<close>

theorem recording_loop_admission_witness:
  "track_info \<lparr>should_stop = False, play_detected = True,
       track_info = Some \<lparr>track_name = ''track'', artist_name = ''artist'',
                          started_at_unix = 0, started_at_lsl = 100\<rparr>\<rparr>
     = Some \<lparr>track_name = ''track'', artist_name = ''artist'',
             started_at_unix = 0, started_at_lsl = 100\<rparr>
   \<and> ''EEG'' \<in> set [''EEG'', ''ACC'']
   \<and> (\<exists>writers.
         recording_loop
           \<lparr>should_stop = False, play_detected = True,
            track_info = Some \<lparr>track_name = ''track'', artist_name = ''artist'',
                               started_at_unix = 0, started_at_lsl = 100\<rparr>\<rparr>
           \<lparr>pre_roll_sec = 2, post_roll_sec = 0\<rparr>
           [''EEG'', ''ACC'']
           [(''EEG'', [[1], [2], [3]], [97.5, 98, 98.5])]
         = Inr writers
       \<and> fmlookup writers ''EEG'' = Some ([(0, 98, - 2, [2]), (1, 98.5, - 1.5, [3])], 2))"
proof -
  let ?info = "\<lparr>track_name = ''track'', artist_name = ''artist'',
                 started_at_unix = 0, started_at_lsl = 100 :: real\<rparr>"
  let ?state = "\<lparr>should_stop = False, play_detected = True, track_info = Some ?info\<rparr>"
  let ?cfg = "\<lparr>pre_roll_sec = 2, post_roll_sec = 0\<rparr>"
  let ?pulls = "[(''EEG'', [[1], [2], [3]], [97.5, 98, 98.5 :: real])]"
  have h1: "track_info ?state = Some ?info"
    by simp
  have h2: "''EEG'' \<in> set [''EEG'', ''ACC'']"
    by simp
  show ?thesis
    using recording_loop_admission [OF h1 h2, of ?cfg ?pulls] h1 h2
    by (auto simp: admitted_def stream_samples_def)
qed

section \<open>The frame synchronizer, step by step\<close>

text \<open>
  One call of \<open>process_eeg_packet\<close> stores the sample vector and then either finds
  fewer or more than four channels for the index and returns, or finds four and
  pushes the frame before the clean-up.
\<close>

lemma process_eeg_packet_eq:
  "process_eeg_packet channel i samples now st =
     (let frame = fmupd channel samples (pending st i);
          st2 = stored channel i samples now st
      in if fcard (fmdom frame) = 4 then
           (case combine_channels frame of
              Inl e \<Rightarrow> (Some e, st2)
            | Inr combined \<Rightarrow>
                (case fmlookup (eeg_timestamps st2) i of
                   None \<Rightarrow> (Some KeyError, st2)
                 | Some timestamp \<Rightarrow>
                     (case push_eeg_chunk combined (Some timestamp) now (lsl_streamer st2) of
                        Inl e \<Rightarrow> (Some e, st2)
                      | Inr lsl \<Rightarrow> (None, cleanup_old_buffers (st2\<lparr>lsl_streamer := lsl\<rparr>)))))
         else (None, st2))"
proof (cases "fmlookup (eeg_buffer st) i")
  case None
  then have "i |\<notin>| fmdom (eeg_buffer st)"
    by (simp add: fmdom_notI)
  then show ?thesis
    by (simp add: process_eeg_packet_def pending_def stored_def None Let_def)
next
  case (Some frame0)
  then have "i |\<in>| fmdom (eeg_buffer st)"
    by (simp add: fmdomI)
  then show ?thesis
    by (simp add: process_eeg_packet_def pending_def stored_def Some Let_def)
qed

lemma process_incomplete:
  assumes "fcard (finsert channel (fmdom (pending st i))) \<noteq> 4"
  shows "process_eeg_packet channel i samples now st = (None, stored channel i samples now st)"
  using assms by (simp add: process_eeg_packet_eq Let_def)

lemma column_stack_4:
  assumes "length b = length a" "length c = length a" "length d = length a"
  shows "column_stack [a, b, c, d] =
         Inr (map (\<lambda>k. [a ! k, b ! k, c ! k, d ! k]) [0..<length a])"
  using assms by (simp add: column_stack_def)

lemma push_eeg_frame:
  assumes "streams_created s" and "eeg_outlet s = Some out" and "a \<noteq> []"
  shows "push_eeg_chunk (map (\<lambda>k. [a ! k, b ! k, c ! k, d ! k]) [0..<length a]) (Some T) now s =
         Inr (s\<lparr>eeg_outlet := Some (out @ frame_samples a b c d T)\<rparr>)"
proof -
  let ?rows = "map (\<lambda>k. [a ! k, b ! k, c ! k, d ! k]) [0..<length a]"
  have ne: "?rows \<noteq> []"
    using assms(3) by simp
  have "map (\<lambda>k. (?rows ! k, T + real k / 256)) [0..<length ?rows] = frame_samples a b c d T"
    by (simp add: frame_samples_def)
  then show ?thesis
    using assms(1,2) push_rows_stamps [OF ne, of EEG_SAMPLE_RATE T out]
    by (simp add: push_eeg_chunk_def EEG_SAMPLE_RATE_def)
qed

lemma process_complete:
  assumes card4: "fcard (finsert channel (fmdom (pending st i))) = 4"
      and f: "fmlookup (fmupd channel samples (pending st i)) ''TP9'' = Some tp9"
             "fmlookup (fmupd channel samples (pending st i)) ''AF7'' = Some af7"
             "fmlookup (fmupd channel samples (pending st i)) ''AF8'' = Some af8"
             "fmlookup (fmupd channel samples (pending st i)) ''TP10'' = Some tp10"
      and len: "length af7 = length tp9" "length af8 = length tp9" "length tp10 = length tp9"
               "tp9 \<noteq> []"
      and ts: "fmlookup (eeg_timestamps (stored channel i samples now st)) i = Some T"
      and lsl: "streams_created (lsl_streamer st)" "eeg_outlet (lsl_streamer st) = Some out"
  shows "process_eeg_packet channel i samples now st =
         (None, cleanup_old_buffers
                  ((stored channel i samples now st)
                     \<lparr>lsl_streamer := (lsl_streamer st)
                        \<lparr>eeg_outlet := Some (out @ frame_samples tp9 af7 af8 tp10 T)\<rparr>\<rparr>))"
proof -
  have l: "lsl_streamer (stored channel i samples now st) = lsl_streamer st"
    by (simp add: stored_def)
  have c: "combine_channels (fmupd channel samples (pending st i)) =
           Inr (map (\<lambda>k. [tp9 ! k, af7 ! k, af8 ! k, tp10 ! k]) [0..<length tp9])"
    unfolding combine_channels_def
    by (simp only: f option.case column_stack_4 [OF len(1-3)])
  have p: "push_eeg_chunk (map (\<lambda>k. [tp9 ! k, af7 ! k, af8 ! k, tp10 ! k]) [0..<length tp9])
             (Some T) now (lsl_streamer st) =
           Inr ((lsl_streamer st)\<lparr>eeg_outlet := Some (out @ frame_samples tp9 af7 af8 tp10 T)\<rparr>)"
    by (rule push_eeg_frame [OF lsl len(4)])
  show ?thesis
    unfolding process_eeg_packet_eq Let_def
    using card4 by (simp add: c ts l p del: fmupd_lookup)
qed

text \<open>
  The clean-up deletes the keys of \<open>oldest_indices\<close> from both dictionaries and leaves
  the rest of the state alone; the keys it keeps are the last ten of the sorted list
  of keys.
\<close>

lemma fmdrop_absent: "k |\<notin>| fmdom m \<Longrightarrow> fmdrop k m = m"
  by (rule fmap_ext) (simp add: fmdom_notD)

lemma delete_old_fields:
  "eeg_buffer (delete_old st k) = fmdrop k (eeg_buffer st)"
  "eeg_timestamps (delete_old st k) = fmdrop k (eeg_timestamps st)"
  "lsl_streamer (delete_old st k) = lsl_streamer st"
  "packet_counts (delete_old st k) = packet_counts st"
  by (simp_all add: delete_old_def fmdrop_absent)

lemma foldl_delete_old_buffer:
  "fmlookup (eeg_buffer (foldl delete_old st ks)) k =
     (if k \<in> set ks then None else fmlookup (eeg_buffer st) k)"
  by (induction ks arbitrary: st) (auto simp: delete_old_fields)

lemma foldl_delete_old_timestamps:
  "fmlookup (eeg_timestamps (foldl delete_old st ks)) k =
     (if k \<in> set ks then None else fmlookup (eeg_timestamps st) k)"
  by (induction ks arbitrary: st) (auto simp: delete_old_fields)

lemma foldl_delete_old_rest:
  "lsl_streamer (foldl delete_old st ks) = lsl_streamer st"
  "packet_counts (foldl delete_old st ks) = packet_counts st"
  by (induction ks arbitrary: st) (simp_all add: delete_old_fields)

lemma length_sorted_keys: "length (sorted_list_of_fset A) = fcard A"
  by (simp add: sorted_list_of_fset.rep_eq fcard.rep_eq)

lemma cleanup_old_buffers_eq:
  "cleanup_old_buffers st = foldl delete_old st (oldest_indices st)"
  by (simp add: cleanup_old_buffers_def oldest_indices_def Let_def length_sorted_keys)

lemma cleanup_lookup:
  "fmlookup (eeg_buffer (cleanup_old_buffers st)) k =
     (if k \<in> set (oldest_indices st) then None else fmlookup (eeg_buffer st) k)"
  "fmlookup (eeg_timestamps (cleanup_old_buffers st)) k =
     (if k \<in> set (oldest_indices st) then None else fmlookup (eeg_timestamps st) k)"
  by (simp_all add: cleanup_old_buffers_eq foldl_delete_old_buffer foldl_delete_old_timestamps)

lemma cleanup_rest:
  "lsl_streamer (cleanup_old_buffers st) = lsl_streamer st"
  "packet_counts (cleanup_old_buffers st) = packet_counts st"
  by (simp_all add: cleanup_old_buffers_eq foldl_delete_old_rest)

lemma cleanup_keys:
  "fmdom (eeg_buffer (cleanup_old_buffers st)) =
     fset_of_list (drop (fcard (fmdom (eeg_buffer st)) - 10)
                     (sorted_list_of_fset (fmdom (eeg_buffer st))))"
proof -
  define ks where "ks = sorted_list_of_fset (fmdom (eeg_buffer st))"
  define m where "m = length ks - 10"
  have d: "distinct ks"
    by (simp add: ks_def sorted_list_of_fset.rep_eq)
  have s: "set ks = fset (fmdom (eeg_buffer st))"
    by (simp add: ks_def sorted_list_of_fset_simps)
  have n: "length ks = fcard (fmdom (eeg_buffer st))"
    by (simp add: ks_def length_sorted_keys)
  have o: "oldest_indices st = take m ks"
    by (simp add: oldest_indices_def ks_def m_def Let_def)
  have "distinct (take m ks @ drop m ks)"
    using d by simp
  then have disj: "set (take m ks) \<inter> set (drop m ks) = {}"
    by (simp only: distinct_append)
  have un: "set ks = set (take m ks) \<union> set (drop m ks)"
    by (metis append_take_drop_id set_append)
  have iff: "k |\<in>| fmdom (eeg_buffer (cleanup_old_buffers st)) \<longleftrightarrow> k \<in> set (drop m ks)" for k
  proof -
    have "k |\<in>| fmdom (eeg_buffer (cleanup_old_buffers st))
          \<longleftrightarrow> fmlookup (eeg_buffer (cleanup_old_buffers st)) k \<noteq> None"
      by (simp add: fmlookup_dom_iff)
    also have "\<dots> \<longleftrightarrow> k \<notin> set (take m ks) \<and> fmlookup (eeg_buffer st) k \<noteq> None"
      by (simp add: cleanup_lookup(1) o)
    also have "\<dots> \<longleftrightarrow> k \<notin> set (take m ks) \<and> k |\<in>| fmdom (eeg_buffer st)"
      by (simp add: fmlookup_dom_iff)
    also have "\<dots> \<longleftrightarrow> k \<notin> set (take m ks) \<and> k \<in> set ks"
      by (simp add: s)
    also have "\<dots> \<longleftrightarrow> k \<in> set (drop m ks)"
      using disj un by auto
    finally show ?thesis .
  qed
  have "fmdom (eeg_buffer (cleanup_old_buffers st)) = fset_of_list (drop m ks)"
  proof (rule fset_eqI)
    fix k
    show "k |\<in>| fmdom (eeg_buffer (cleanup_old_buffers st)) \<longleftrightarrow> k |\<in>| fset_of_list (drop m ks)"
      using iff [of k] by (simp add: fset_of_list_elem)
  qed
  then show ?thesis
    by (simp only: m_def ks_def length_sorted_keys)
qed

text \<open>
  The four samples of an index that is not in the table, arriving in any order: the
  first three are stored, the fourth completes the frame.
\<close>

lemma pending_fresh: "i |\<notin>| fmdom (eeg_buffer st) \<Longrightarrow> pending st i = fmempty"
  by (simp add: pending_def fmdom_notD)

lemma stored_fields:
  "pending (stored c i s now st) i = fmupd c s (pending st i)"
  "i |\<in>| fmdom (eeg_buffer (stored c i s now st))"
  "eeg_timestamps (stored c i s now st) =
     (if i |\<in>| fmdom (eeg_buffer st) then eeg_timestamps st
      else fmupd i now (eeg_timestamps st))"
  "eeg_buffer (stored c i s now st) = fmupd i (fmupd c s (pending st i)) (eeg_buffer st)"
  "lsl_streamer (stored c i s now st) = lsl_streamer st"
  "packet_counts (stored c i s now st) = packet_counts st"
  by (simp_all add: stored_def pending_def)

lemma stored_stored:
  "stored c' i s' now' (stored c i s now st) =
     st\<lparr>eeg_timestamps :=
          (if i |\<in>| fmdom (eeg_buffer st) then eeg_timestamps st
           else fmupd i now (eeg_timestamps st)),
        eeg_buffer := fmupd i (fmupd c' s' (fmupd c s (pending st i))) (eeg_buffer st)\<rparr>"
  by (simp add: stored_def pending_def)

lemma fcard_small:
  "fcard {||} = 0"
  "fcard (finsert x A) = (if x |\<in>| A then fcard A else Suc (fcard A))"
  by (simp_all add: fcard_finsert_if)

lemma feed_four:
  assumes d: "distinct [c1, c2, c3, c4]"
      and s: "set [c1, c2, c3, c4] = set EEG_CHANNEL_NAMES"
      and fresh: "i |\<notin>| fmdom (eeg_buffer st)"
      and lsl: "streams_created (lsl_streamer st)" "eeg_outlet (lsl_streamer st) = Some out"
      and len: "\<And>c. c \<in> set EEG_CHANNEL_NAMES \<Longrightarrow> length (smp c) = 12"
  shows "feed_eeg [(c1, i, smp c1, t1), (c2, i, smp c2, t2), (c3, i, smp c3, t3)] st =
           ([], st\<lparr>eeg_timestamps := fmupd i t1 (eeg_timestamps st),
                   eeg_buffer := fmupd i (fmupd c3 (smp c3) (fmupd c2 (smp c2)
                                            (fmupd c1 (smp c1) fmempty))) (eeg_buffer st)\<rparr>)"
    and "feed_eeg [(c1, i, smp c1, t1), (c2, i, smp c2, t2), (c3, i, smp c3, t3),
                   (c4, i, smp c4, t4)] st =
           ([], cleanup_old_buffers
                  (st\<lparr>eeg_timestamps := fmupd i t1 (eeg_timestamps st),
                      eeg_buffer := fmupd i (fmupd c4 (smp c4) (fmupd c3 (smp c3)
                                      (fmupd c2 (smp c2) (fmupd c1 (smp c1) fmempty))))
                                      (eeg_buffer st),
                      lsl_streamer := (lsl_streamer st)
                        \<lparr>eeg_outlet := Some (out @ frame_samples (smp ''TP9'') (smp ''AF7'')
                                                     (smp ''AF8'') (smp ''TP10'') t1)\<rparr>\<rparr>))"
proof -
  define s1 where "s1 = stored c1 i (smp c1) t1 st"
  define s2 where "s2 = stored c2 i (smp c2) t2 s1"
  define s3 where "s3 = stored c3 i (smp c3) t3 s2"
  define F3 where "F3 = fmupd c3 (smp c3) (fmupd c2 (smp c2) (fmupd c1 (smp c1) fmempty))"
  define F where "F = fmupd c4 (smp c4) F3"
  have neq: "c1 \<noteq> c2" "c1 \<noteq> c3" "c1 \<noteq> c4" "c2 \<noteq> c3" "c2 \<noteq> c4" "c3 \<noteq> c4"
    using d by auto
  have p0: "pending st i = fmempty"
    by (rule pending_fresh [OF fresh])
  have p1: "pending s1 i = fmupd c1 (smp c1) fmempty"
    by (simp add: s1_def stored_fields p0)
  have p2: "pending s2 i = fmupd c2 (smp c2) (fmupd c1 (smp c1) fmempty)"
    by (simp add: s2_def stored_fields p1)
  have p3: "pending s3 i = F3"
    by (simp add: s3_def stored_fields p2 F3_def)
  have e1: "process_eeg_packet c1 i (smp c1) t1 st = (None, s1)"
    unfolding s1_def by (rule process_incomplete) (simp add: p0 fcard_small)
  have e2: "process_eeg_packet c2 i (smp c2) t2 s1 = (None, s2)"
    unfolding s2_def using neq by (intro process_incomplete) (simp add: p1 fcard_small)
  have e3: "process_eeg_packet c3 i (smp c3) t3 s2 = (None, s3)"
    unfolding s3_def using neq by (intro process_incomplete) (simp add: p2 fcard_small)
  have ts1: "eeg_timestamps s1 = fmupd i t1 (eeg_timestamps st)"
    using fresh by (simp add: s1_def stored_fields)
  have ts3: "eeg_timestamps s3 = fmupd i t1 (eeg_timestamps st)"
    using fresh by (simp add: s3_def s2_def stored_fields s1_def)
  have b3: "eeg_buffer s3 = fmupd i F3 (eeg_buffer st)"
    by (simp add: s3_def stored_fields p2 F3_def s2_def s1_def p0)
  have l3: "lsl_streamer s3 = lsl_streamer st"
    by (simp add: s3_def s2_def s1_def stored_fields)
  have s1_eq: "s1 = st\<lparr>eeg_timestamps := fmupd i t1 (eeg_timestamps st),
                        eeg_buffer := fmupd i (fmupd c1 (smp c1) fmempty) (eeg_buffer st)\<rparr>"
    using fresh by (simp add: s1_def stored_def p0)
  have in1: "i |\<in>| fmdom (eeg_buffer s1)"
    by (simp add: s1_def stored_fields)
  have "s2 = s1\<lparr>eeg_timestamps := eeg_timestamps s1,
                  eeg_buffer := fmupd i (fmupd c2 (smp c2) (fmupd c1 (smp c1) fmempty))
                                  (eeg_buffer s1)\<rparr>"
    by (simp add: s2_def stored_def p1 in1)
  also have "\<dots> = st\<lparr>eeg_timestamps := fmupd i t1 (eeg_timestamps st),
                       eeg_buffer := fmupd i (fmupd c2 (smp c2) (fmupd c1 (smp c1) fmempty))
                                       (eeg_buffer st)\<rparr>"
    by (simp add: s1_eq)
  finally have s2_eq: "s2 = st\<lparr>eeg_timestamps := fmupd i t1 (eeg_timestamps st),
                       eeg_buffer := fmupd i (fmupd c2 (smp c2) (fmupd c1 (smp c1) fmempty))
                                       (eeg_buffer st)\<rparr>" .
  have in2: "i |\<in>| fmdom (eeg_buffer s2)"
    by (simp add: s2_def stored_fields)
  have "s3 = s2\<lparr>eeg_timestamps := eeg_timestamps s2,
                  eeg_buffer := fmupd i F3 (eeg_buffer s2)\<rparr>"
    by (simp add: s3_def stored_def p2 in2 F3_def)
  also have "\<dots> = st\<lparr>eeg_timestamps := fmupd i t1 (eeg_timestamps st),
                       eeg_buffer := fmupd i F3 (eeg_buffer st)\<rparr>"
    by (simp add: s2_eq)
  finally have s3_eq: "s3 = st\<lparr>eeg_timestamps := fmupd i t1 (eeg_timestamps st),
                        eeg_buffer := fmupd i F3 (eeg_buffer st)\<rparr>" .
  have in3: "i |\<in>| fmdom (eeg_buffer s3)"
    by (simp add: s3_def stored_fields)
  show three: "feed_eeg [(c1, i, smp c1, t1), (c2, i, smp c2, t2), (c3, i, smp c3, t3)] st =
           ([], st\<lparr>eeg_timestamps := fmupd i t1 (eeg_timestamps st),
                   eeg_buffer := fmupd i (fmupd c3 (smp c3) (fmupd c2 (smp c2)
                                            (fmupd c1 (smp c1) fmempty))) (eeg_buffer st)\<rparr>)"
    by (simp add: e1 e2 e3 s3_eq F3_def)
  have look: "fmlookup F c = Some (smp c)" if "c \<in> set EEG_CHANNEL_NAMES" for c
  proof -
    have "c \<in> set [c1, c2, c3, c4]"
      using that s by simp
    then show ?thesis
      by (auto simp: F_def F3_def)
  qed
  have names: "''TP9'' \<in> set EEG_CHANNEL_NAMES" "''AF7'' \<in> set EEG_CHANNEL_NAMES"
    "''AF8'' \<in> set EEG_CHANNEL_NAMES" "''TP10'' \<in> set EEG_CHANNEL_NAMES"
    by (simp_all add: EEG_CHANNEL_NAMES_def)
  have ne: "smp ''TP9'' \<noteq> []"
    using len [OF names(1)] by auto
  have card4: "fcard (finsert c4 (fmdom (pending s3 i))) = 4"
    using neq by (simp add: p3 F3_def fcard_small)
  have e4: "process_eeg_packet c4 i (smp c4) t4 s3 =
        (None, cleanup_old_buffers
                 ((stored c4 i (smp c4) t4 s3)
                    \<lparr>lsl_streamer := (lsl_streamer s3)
                       \<lparr>eeg_outlet := Some (out @ frame_samples (smp ''TP9'') (smp ''AF7'')
                                                    (smp ''AF8'') (smp ''TP10'') t1)\<rparr>\<rparr>))"
  proof (rule process_complete [OF card4])
    show "fmlookup (fmupd c4 (smp c4) (pending s3 i)) ''TP9'' = Some (smp ''TP9'')"
      using look [OF names(1)] by (simp only: p3 F_def)
    show "fmlookup (fmupd c4 (smp c4) (pending s3 i)) ''AF7'' = Some (smp ''AF7'')"
      using look [OF names(2)] by (simp only: p3 F_def)
    show "fmlookup (fmupd c4 (smp c4) (pending s3 i)) ''AF8'' = Some (smp ''AF8'')"
      using look [OF names(3)] by (simp only: p3 F_def)
    show "fmlookup (fmupd c4 (smp c4) (pending s3 i)) ''TP10'' = Some (smp ''TP10'')"
      using look [OF names(4)] by (simp only: p3 F_def)
    show "length (smp ''AF7'') = length (smp ''TP9'')"
      "length (smp ''AF8'') = length (smp ''TP9'')"
      "length (smp ''TP10'') = length (smp ''TP9'')"
      by (simp_all add: len names)
    show "smp ''TP9'' \<noteq> []"
      by (rule ne)
    show "fmlookup (eeg_timestamps (stored c4 i (smp c4) t4 s3)) i = Some t1"
      by (simp add: stored_fields ts3 b3)
    show "streams_created (lsl_streamer s3)" "eeg_outlet (lsl_streamer s3) = Some out"
      by (simp_all add: l3 lsl)
  qed
  have "stored c4 i (smp c4) t4 s3 =
        s3\<lparr>eeg_timestamps := eeg_timestamps s3, eeg_buffer := fmupd i F (eeg_buffer s3)\<rparr>"
    by (simp add: stored_def p3 in3 F_def)
  also have "\<dots> = st\<lparr>eeg_timestamps := fmupd i t1 (eeg_timestamps st),
                       eeg_buffer := fmupd i F (eeg_buffer st)\<rparr>"
    by (simp add: s3_eq)
  finally have s4_eq: "stored c4 i (smp c4) t4 s3 =
        st\<lparr>eeg_timestamps := fmupd i t1 (eeg_timestamps st),
           eeg_buffer := fmupd i F (eeg_buffer st)\<rparr>" .
  show "feed_eeg [(c1, i, smp c1, t1), (c2, i, smp c2, t2), (c3, i, smp c3, t3),
                   (c4, i, smp c4, t4)] st =
           ([], cleanup_old_buffers
                  (st\<lparr>eeg_timestamps := fmupd i t1 (eeg_timestamps st),
                      eeg_buffer := fmupd i (fmupd c4 (smp c4) (fmupd c3 (smp c3)
                                      (fmupd c2 (smp c2) (fmupd c1 (smp c1) fmempty))))
                                      (eeg_buffer st),
                      lsl_streamer := (lsl_streamer st)
                        \<lparr>eeg_outlet := Some (out @ frame_samples (smp ''TP9'') (smp ''AF7'')
                                                     (smp ''AF8'') (smp ''TP10'') t1)\<rparr>\<rparr>))"
    by (simp add: e1 e2 e3 e4 s4_eq l3 F_def F3_def)
qed

section \<open>Retention when no frame completes\<close>

text \<open>
  As long as one channel never arrives no frame has four channels, the completion
  branch is never entered and every index that arrives stays in the table.
\<close>

lemma cleanup_small:
  assumes "fcard (fmdom (eeg_buffer st)) \<le> 10"
  shows "cleanup_old_buffers st = st"
  using assms by (simp add: cleanup_old_buffers_def)

lemma subset3_card:
  assumes "A |\<subseteq>| {|''TP9'', ''AF7'', ''AF8''|}"
  shows "fcard A \<noteq> 4"
proof -
  have "fcard A \<le> fcard {|''TP9'', ''AF7'', ''AF8''|}"
    by (rule fcard_mono [OF assms])
  also have "\<dots> = 3"
    by (simp add: fcard_small)
  finally show ?thesis
    by simp
qed

lemma feed_incomplete:
  assumes "\<forall>a \<in> set arrivals. fst a \<in> {''TP9'', ''AF7'', ''AF8''}"
      and "\<forall>i f. fmlookup (eeg_buffer st) i = Some f \<longrightarrow> fmdom f |\<subseteq>| {|''TP9'', ''AF7'', ''AF8''|}"
  shows "fst (feed_eeg arrivals st) = []
       \<and> fmdom (eeg_buffer (snd (feed_eeg arrivals st))) =
           fmdom (eeg_buffer st) |\<union>| fset_of_list (map (\<lambda>a. fst (snd a)) arrivals)
       \<and> lsl_streamer (snd (feed_eeg arrivals st)) = lsl_streamer st"
  using assms
proof (induction arrivals arbitrary: st)
  case Nil
  show ?case by simp
next
  case (Cons a arrivals)
  obtain c i s t where a: "a = (c, i, s, t)"
    by (cases a)
  have c: "c \<in> {''TP9'', ''AF7'', ''AF8''}"
    using Cons.prems(1) by (simp add: a)
  have sub: "fmdom (pending st i) |\<subseteq>| {|''TP9'', ''AF7'', ''AF8''|}"
    using Cons.prems(2) by (auto simp: pending_def split: option.splits)
  have sub': "finsert c (fmdom (pending st i)) |\<subseteq>| {|''TP9'', ''AF7'', ''AF8''|}"
    using c sub by auto
  have step: "process_eeg_packet c i s t st = (None, stored c i s t st)"
    by (rule process_incomplete [OF subset3_card [OF sub']])
  have inv: "\<forall>j f. fmlookup (eeg_buffer (stored c i s t st)) j = Some f \<longrightarrow>
                 fmdom f |\<subseteq>| {|''TP9'', ''AF7'', ''AF8''|}"
    using Cons.prems(2) sub' by (auto simp: stored_fields)
  have rest: "\<forall>a \<in> set arrivals. fst a \<in> {''TP9'', ''AF7'', ''AF8''}"
    using Cons.prems(1) by simp
  show ?case
    using Cons.IH [OF rest inv]
    by (auto simp: a step stored_fields)
qed

lemma fifteen_indices:
  "map (\<lambda>a. fst (snd a)) fifteen_incomplete =
     [1, 1, 1, 2, 2, 2, 3, 3, 3, 4, 4, 4, 5, 5, 5, 6, 6, 6, 7, 7, 7, 8, 8, 8, 9, 9, 9,
      10, 10, 10, 11, 11, 11, 12, 12, 12, 13, 13, 13, 14, 14, 14, 15, 15, 15]"
  by (simp add: fifteen_incomplete_def missing_tp10_def upto_rec1)

text \<open>
  Claim C1 states that at most 10 pending frames exist after each insertion, also when
  no frame ever completes. On the retention input of the specification (indices 1 to
  15, each without TP10) the code raises nothing, never runs the clean-up and ends
  with all 15 indices in the table.
\<close>

theorem retention_unbounded_without_completion:
  "fst (feed_eeg fifteen_incomplete with_outlets) = []
   \<and> fmdom (eeg_buffer (snd (feed_eeg fifteen_incomplete with_outlets))) =
       {|1, 2, 3, 4, 5, 6, 7, 8, 9, 10, 11, 12, 13, 14, 15|}
   \<and> fcard (fmdom (eeg_buffer (snd (feed_eeg fifteen_incomplete with_outlets)))) = 15"
proof -
  have a: "\<forall>a \<in> set fifteen_incomplete. fst a \<in> {''TP9'', ''AF7'', ''AF8''}"
    by (auto simp: fifteen_incomplete_def missing_tp10_def)
  have b: "\<forall>i f. fmlookup (eeg_buffer with_outlets) i = Some f \<longrightarrow>
                 fmdom f |\<subseteq>| {|''TP9'', ''AF7'', ''AF8''|}"
    by (simp add: with_outlets_def new_streamer_def)
  have e: "fmdom (eeg_buffer with_outlets) = {||}"
    by (simp add: with_outlets_def new_streamer_def)
  have k0: "fmdom (eeg_buffer (snd (feed_eeg fifteen_incomplete with_outlets))) =
       fmdom (eeg_buffer with_outlets)
         |\<union>| fset_of_list (map (\<lambda>a. fst (snd a)) fifteen_incomplete)"
    using feed_incomplete [OF a b] by blast
  have k: "fmdom (eeg_buffer (snd (feed_eeg fifteen_incomplete with_outlets))) =
       {|1, 2, 3, 4, 5, 6, 7, 8, 9, 10, 11, 12, 13, 14, 15|}"
    unfolding k0 e fifteen_indices by simp
  have n: "fst (feed_eeg fifteen_incomplete with_outlets) = []"
    using feed_incomplete [OF a b] by blast
  show ?thesis
    by (simp add: n k fcard_small)
qed

section \<open>Completion of a frame\<close>

lemma channel_names:
  "''TP9'' \<in> set EEG_CHANNEL_NAMES" "''AF7'' \<in> set EEG_CHANNEL_NAMES"
  "''AF8'' \<in> set EEG_CHANNEL_NAMES" "''TP10'' \<in> set EEG_CHANNEL_NAMES"
  by (simp_all add: EEG_CHANNEL_NAMES_def)

lemma fcard_channel_names: "fcard (fset_of_list EEG_CHANNEL_NAMES) = 4"
  by (simp add: EEG_CHANNEL_NAMES_def fcard_small)

lemma process_completing:
  assumes dom: "fmdom (fmupd c s (pending st i)) = fset_of_list EEG_CHANNEL_NAMES"
      and f: "fmlookup (fmupd c s (pending st i)) ''TP9'' = Some tp9"
             "fmlookup (fmupd c s (pending st i)) ''AF7'' = Some af7"
             "fmlookup (fmupd c s (pending st i)) ''AF8'' = Some af8"
             "fmlookup (fmupd c s (pending st i)) ''TP10'' = Some tp10"
      and len: "length tp9 = 12" "length af7 = 12" "length af8 = 12" "length tp10 = 12"
      and ts: "fmlookup (eeg_timestamps st) i = Some T"
      and lsl: "streams_created (lsl_streamer st)" "eeg_outlet (lsl_streamer st) = Some out"
  shows "i |\<in>| fmdom (eeg_buffer st)"
    and "process_eeg_packet c i s now st =
         (None, cleanup_old_buffers
                  ((stored c i s now st)
                     \<lparr>lsl_streamer := (lsl_streamer st)
                        \<lparr>eeg_outlet := Some (out @ frame_samples tp9 af7 af8 tp10 T)\<rparr>\<rparr>))"
proof -
  have card4: "fcard (finsert c (fmdom (pending st i))) = 4"
    using dom fcard_channel_names by simp
  have "pending st i \<noteq> fmempty"
  proof
    assume "pending st i = fmempty"
    then have "fcard (finsert c (fmdom (pending st i))) = 1"
      by (simp add: fcard_small)
    with card4 show False
      by simp
  qed
  then show present: "i |\<in>| fmdom (eeg_buffer st)"
    by (auto simp: pending_def fmlookup_dom_iff split: option.splits)
  have ts': "fmlookup (eeg_timestamps (stored c i s now st)) i = Some T"
    using present ts by (simp add: stored_fields)
  have ne: "tp9 \<noteq> []"
    using len(1) by auto
  show "process_eeg_packet c i s now st =
         (None, cleanup_old_buffers
                  ((stored c i s now st)
                     \<lparr>lsl_streamer := (lsl_streamer st)
                        \<lparr>eeg_outlet := Some (out @ frame_samples tp9 af7 af8 tp10 T)\<rparr>\<rparr>))"
    by (rule process_complete [OF card4 f _ _ _ ne ts' lsl]) (simp_all add: len)
qed

lemma feed_eeg_snoc:
  "feed_eeg (xs @ [(c, i, s, t)]) st =
     (case process_eeg_packet c i s t (snd (feed_eeg xs st)) of
        (None, st') \<Rightarrow> (fst (feed_eeg xs st), st')
      | (Some e, st') \<Rightarrow> (fst (feed_eeg xs st) @ [e], st'))"
proof (induction xs arbitrary: st)
  case Nil
  show ?case
    by (simp split: prod.splits option.splits)
next
  case (Cons a xs)
  obtain c' i' s' t' where a: "a = (c', i', s', t')"
    by (cases a)
  obtain r st1 where p: "process_eeg_packet c' i' s' t' st = (r, st1)"
    by (cases "process_eeg_packet c' i' s' t' st")
  obtain es st2 where f: "feed_eeg xs st1 = (es, st2)"
    by (cases "feed_eeg xs st1")
  obtain r2 st3 where q: "process_eeg_packet c i s t st2 = (r2, st3)"
    by (cases "process_eeg_packet c i s t st2")
  show ?case
    using Cons.IH [of st1] by (cases r; cases r2) (simp_all add: a p f q)
qed



lemma with_outlets_fields:
  "streams_created (lsl_streamer with_outlets)"
  "eeg_outlet (lsl_streamer with_outlets) = Some []"
  "eeg_buffer with_outlets = fmempty"
  "eeg_timestamps with_outlets = fmempty"
  by (simp_all add: with_outlets_def new_streamer_def create_streams_def new_lsl_streamer_def)

lemma example_samples_length: "length (example_samples c) = 12"
  by (simp add: example_samples_def)


lemma feed_three_example:
  "feed_eeg [(''TP9'', 7, example_samples ''TP9'', 10), (''AF7'', 7, example_samples ''AF7'', 11),
             (''AF8'', 7, example_samples ''AF8'', 12)] with_outlets = ([], three_arrived)"
proof -
  have h1: "distinct [''TP9'', ''AF7'', ''AF8'', ''TP10'']"
    by simp
  have h2: "set [''TP9'', ''AF7'', ''AF8'', ''TP10''] = set EEG_CHANNEL_NAMES"
    by (simp add: EEG_CHANNEL_NAMES_def)
  have h3: "7 |\<notin>| fmdom (eeg_buffer with_outlets)"
    by (simp add: with_outlets_fields)
  show ?thesis
    using feed_four(1) [where smp = example_samples, OF h1 h2 h3 with_outlets_fields(1,2)
        example_samples_length, of 10 11 12]
    by (simp add: three_arrived_def with_outlets_fields)
qed

lemma three_arrived_fields:
  "pending three_arrived 7 =
     fmupd ''AF8'' (example_samples ''AF8'')
       (fmupd ''AF7'' (example_samples ''AF7'')
         (fmupd ''TP9'' (example_samples ''TP9'') fmempty))"
  "fmdom (eeg_buffer three_arrived) = {|7|}"
  "fmlookup (eeg_timestamps three_arrived) 7 = Some 10"
  "streams_created (lsl_streamer three_arrived)"
  "eeg_outlet (lsl_streamer three_arrived) = Some []"
  by (simp_all add: three_arrived_def pending_def with_outlets_fields)

lemma completion_state:
  assumes dom: "fmdom (fmupd c s (pending st i)) = fset_of_list EEG_CHANNEL_NAMES"
      and f: "fmlookup (fmupd c s (pending st i)) ''TP9'' = Some tp9"
             "fmlookup (fmupd c s (pending st i)) ''AF7'' = Some af7"
             "fmlookup (fmupd c s (pending st i)) ''AF8'' = Some af8"
             "fmlookup (fmupd c s (pending st i)) ''TP10'' = Some tp10"
      and len: "length tp9 = 12" "length af7 = 12" "length af8 = 12" "length tp10 = 12"
      and ts: "fmlookup (eeg_timestamps st) i = Some T"
      and lsl: "streams_created (lsl_streamer st)" "eeg_outlet (lsl_streamer st) = Some out"
  shows "fst (process_eeg_packet c i s now st) = None"
    and "eeg_outlet (lsl_streamer (snd (process_eeg_packet c i s now st))) =
           Some (out @ frame_samples tp9 af7 af8 tp10 T)"
    and "streams_created (lsl_streamer (snd (process_eeg_packet c i s now st)))"
    and "fmdom (eeg_buffer (snd (process_eeg_packet c i s now st))) =
           fset_of_list (drop (fcard (fmdom (eeg_buffer st)) - 10)
                           (sorted_list_of_fset (fmdom (eeg_buffer st))))"
    and "i |\<in>| fmdom (eeg_buffer (snd (process_eeg_packet c i s now st))) \<Longrightarrow>
           fmlookup (eeg_buffer (snd (process_eeg_packet c i s now st))) i =
             Some (fmupd c s (pending st i))
         \<and> fmlookup (eeg_timestamps (snd (process_eeg_packet c i s now st))) i = Some T"
    and "fcard (fmdom (eeg_buffer st)) \<le> 10 \<Longrightarrow>
           i |\<in>| fmdom (eeg_buffer (snd (process_eeg_packet c i s now st)))"
proof -
  define st2 where
    "st2 = (stored c i s now st)
             \<lparr>lsl_streamer := (lsl_streamer st)
                \<lparr>eeg_outlet := Some (out @ frame_samples tp9 af7 af8 tp10 T)\<rparr>\<rparr>"
  note pc = process_completing [OF dom f len ts lsl]
  have p: "process_eeg_packet c i s now st = (None, cleanup_old_buffers st2)"
    unfolding st2_def by (rule pc(2))
  have present: "i |\<in>| fmdom (eeg_buffer st)"
    by (rule pc(1))
  have b2: "eeg_buffer st2 = fmupd i (fmupd c s (pending st i)) (eeg_buffer st)"
    and t2: "eeg_timestamps st2 = eeg_timestamps st"
    and l2: "lsl_streamer st2 =
             (lsl_streamer st)\<lparr>eeg_outlet := Some (out @ frame_samples tp9 af7 af8 tp10 T)\<rparr>"
    using present by (simp_all add: st2_def stored_fields)
  have k2: "fmdom (eeg_buffer st2) = fmdom (eeg_buffer st)"
    using present by (auto simp: b2)
  show "fst (process_eeg_packet c i s now st) = None"
    by (simp add: p)
  show "eeg_outlet (lsl_streamer (snd (process_eeg_packet c i s now st))) =
           Some (out @ frame_samples tp9 af7 af8 tp10 T)"
    by (simp add: p cleanup_rest l2)
  show "streams_created (lsl_streamer (snd (process_eeg_packet c i s now st)))"
    by (simp add: p cleanup_rest l2 lsl)
  show keys: "fmdom (eeg_buffer (snd (process_eeg_packet c i s now st))) =
           fset_of_list (drop (fcard (fmdom (eeg_buffer st)) - 10)
                           (sorted_list_of_fset (fmdom (eeg_buffer st))))"
    using cleanup_keys [of st2] by (simp add: p k2)
  show "fmlookup (eeg_buffer (snd (process_eeg_packet c i s now st))) i =
             Some (fmupd c s (pending st i))
         \<and> fmlookup (eeg_timestamps (snd (process_eeg_packet c i s now st))) i = Some T"
    if "i |\<in>| fmdom (eeg_buffer (snd (process_eeg_packet c i s now st)))"
  proof -
    have "fmlookup (eeg_buffer (cleanup_old_buffers st2)) i \<noteq> None"
      using that by (simp add: p fmlookup_dom_iff)
    then have "i \<notin> set (oldest_indices st2)"
      by (auto simp: cleanup_lookup split: if_splits)
    then show ?thesis
      by (simp add: p cleanup_lookup b2 t2 ts)
  qed
  show "i |\<in>| fmdom (eeg_buffer (snd (process_eeg_packet c i s now st)))"
    if "fcard (fmdom (eeg_buffer st)) \<le> 10"
    using that present by (simp add: keys sorted_list_of_fset_simps)
qed

lemma example_completion_hyps:
  "fmdom (fmupd ''TP10'' (example_samples ''TP10'') (pending three_arrived 7)) =
     fset_of_list EEG_CHANNEL_NAMES"
  "fmlookup (fmupd ''TP10'' (example_samples ''TP10'') (pending three_arrived 7)) ''TP9'' =
     Some (example_samples ''TP9'')"
  "fmlookup (fmupd ''TP10'' (example_samples ''TP10'') (pending three_arrived 7)) ''AF7'' =
     Some (example_samples ''AF7'')"
  "fmlookup (fmupd ''TP10'' (example_samples ''TP10'') (pending three_arrived 7)) ''AF8'' =
     Some (example_samples ''AF8'')"
  "fmlookup (fmupd ''TP10'' (example_samples ''TP10'') (pending three_arrived 7)) ''TP10'' =
     Some (example_samples ''TP10'')"
  by (auto simp: three_arrived_fields EEG_CHANNEL_NAMES_def)

lemma feed_four_example:
  "feed_eeg [(''TP9'', 7, example_samples ''TP9'', 10), (''AF7'', 7, example_samples ''AF7'', 11),
             (''AF8'', 7, example_samples ''AF8'', 12), (''TP10'', 7, example_samples ''TP10'', 13)]
     with_outlets =
   ([], snd (process_eeg_packet ''TP10'' 7 (example_samples ''TP10'') 13 three_arrived))"
proof -
  have n: "fst (process_eeg_packet ''TP10'' 7 (example_samples ''TP10'') 13 three_arrived) = None"
    by (rule completion_state(1) [OF example_completion_hyps example_samples_length
          example_samples_length example_samples_length example_samples_length
          three_arrived_fields(3,4,5)])
  obtain st' where p:
    "process_eeg_packet ''TP10'' 7 (example_samples ''TP10'') 13 three_arrived = (None, st')"
    using n by (cases "process_eeg_packet ''TP10'' 7 (example_samples ''TP10'') 13 three_arrived")
      auto
  have "feed_eeg ([(''TP9'', 7, example_samples ''TP9'', 10),
        (''AF7'', 7, example_samples ''AF7'', 11), (''AF8'', 7, example_samples ''AF8'', 12)]
        @ [(''TP10'', 7, example_samples ''TP10'', 13)]) with_outlets = ([], st')"
    by (simp only: feed_eeg_snoc feed_three_example snd_conv fst_conv p prod.case option.case)
  then show ?thesis
    by (simp add: p del: feed_eeg.simps)
qed

lemma example_four_present:
  "7 |\<in>| fmdom (eeg_buffer (snd (feed_eeg
      [(''TP9'', 7, example_samples ''TP9'', 10), (''AF7'', 7, example_samples ''AF7'', 11),
       (''AF8'', 7, example_samples ''AF8'', 12), (''TP10'', 7, example_samples ''TP10'', 13)]
      with_outlets)))"
proof -
  have "fcard (fmdom (eeg_buffer three_arrived)) \<le> 10"
    by (simp add: three_arrived_fields fcard_small)
  then have "7 |\<in>| fmdom (eeg_buffer (snd (process_eeg_packet ''TP10'' 7
                 (example_samples ''TP10'') 13 three_arrived)))"
    by (rule completion_state(6) [OF example_completion_hyps example_samples_length
          example_samples_length example_samples_length example_samples_length
          three_arrived_fields(3,4,5)])
  then show ?thesis
    by (simp only: feed_four_example snd_conv)
qed




section \<open>A further sample for a completed index\<close>

text \<open>
  Claim C10. After the four channel samples of an index \<open>i\<close> have arrived and its frame
  has been pushed, one further sample vector \<open>s5\<close> for \<open>i\<close> on any channel \<open>c5\<close>,
  arriving while \<open>i\<close> is still in the table, raises nothing and pushes a second frame
  for \<open>i\<close>: the stored vectors with the one of \<open>c5\<close> replaced by \<open>s5\<close>, stamped again
  from the clock reading \<open>t1\<close> of the first arrival.
\<close>

theorem further_sample_emits_duplicate_frame:
  assumes "distinct [c1, c2, c3, c4]"
      and "set [c1, c2, c3, c4] = set EEG_CHANNEL_NAMES"
      and "i |\<notin>| fmdom (eeg_buffer st)"
      and "streams_created (lsl_streamer st)"
      and "eeg_outlet (lsl_streamer st) = Some out"
      and "\<forall>c \<in> set EEG_CHANNEL_NAMES. length (smp c) = 12"
      and "i |\<in>| fmdom (eeg_buffer (snd (feed_eeg
             [(c1, i, smp c1, t1), (c2, i, smp c2, t2), (c3, i, smp c3, t3),
              (c4, i, smp c4, t4)] st)))"
      and "c5 \<in> set EEG_CHANNEL_NAMES"
      and "length s5 = 12"
  shows "fst (feed_eeg [(c1, i, smp c1, t1), (c2, i, smp c2, t2), (c3, i, smp c3, t3),
                        (c4, i, smp c4, t4), (c5, i, s5, t5)] st) = []
       \<and> eeg_outlet (lsl_streamer (snd (feed_eeg
             [(c1, i, smp c1, t1), (c2, i, smp c2, t2), (c3, i, smp c3, t3),
              (c4, i, smp c4, t4), (c5, i, s5, t5)] st))) =
           Some (out
                 @ frame_samples (smp ''TP9'') (smp ''AF7'') (smp ''AF8'') (smp ''TP10'') t1
                 @ frame_samples ((smp(c5 := s5)) ''TP9'') ((smp(c5 := s5)) ''AF7'')
                     ((smp(c5 := s5)) ''AF8'') ((smp(c5 := s5)) ''TP10'') t1)"
proof -
  define F where
    "F = fmupd c4 (smp c4) (fmupd c3 (smp c3) (fmupd c2 (smp c2) (fmupd c1 (smp c1) fmempty)))"
  define L where
    "L = (lsl_streamer st)\<lparr>eeg_outlet := Some (out @ frame_samples (smp ''TP9'') (smp ''AF7'')
                                                     (smp ''AF8'') (smp ''TP10'') t1)\<rparr>"
  define X where
    "X = st\<lparr>eeg_timestamps := fmupd i t1 (eeg_timestamps st),
            eeg_buffer := fmupd i F (eeg_buffer st), lsl_streamer := L\<rparr>"
  define st4 where "st4 = cleanup_old_buffers X"
  define four where
    "four = [(c1, i, smp c1, t1), (c2, i, smp c2, t2), (c3, i, smp c3, t3), (c4, i, smp c4, t4)]"
  have len: "\<And>c. c \<in> set EEG_CHANNEL_NAMES \<Longrightarrow> length (smp c) = 12"
    using assms(6) by blast
  have f4: "feed_eeg four st = ([], st4)"
    unfolding four_def st4_def X_def L_def F_def
    by (rule feed_four(2) [where smp = smp, OF assms(1-5) len])
  have present: "i |\<in>| fmdom (eeg_buffer st4)"
    using assms(7) by (simp only: four_def [symmetric] f4 snd_conv)
  then have "fmlookup (eeg_buffer (cleanup_old_buffers X)) i \<noteq> None"
    by (simp add: st4_def fmlookup_dom_iff)
  then have keep: "i \<notin> set (oldest_indices X)"
    by (auto simp: cleanup_lookup split: if_splits)
  have b4: "fmlookup (eeg_buffer st4) i = Some F"
    and t4: "fmlookup (eeg_timestamps st4) i = Some t1"
    using keep by (simp_all add: st4_def cleanup_lookup X_def)
  have l4: "lsl_streamer st4 = L"
    by (simp add: st4_def cleanup_rest X_def)
  have p4: "pending st4 i = F"
    by (simp add: pending_def b4)
  have lsl4: "streams_created (lsl_streamer st4)"
    "eeg_outlet (lsl_streamer st4) =
       Some (out @ frame_samples (smp ''TP9'') (smp ''AF7'') (smp ''AF8'') (smp ''TP10'') t1)"
    by (simp_all add: l4 L_def assms(4))
  have domF: "fmdom (fmupd c5 s5 (pending st4 i)) = fset_of_list EEG_CHANNEL_NAMES"
  proof (rule fset_eqI)
    fix x
    have "x |\<in>| fmdom (fmupd c5 s5 F) \<longleftrightarrow> x = c5 \<or> x \<in> set [c1, c2, c3, c4]"
      by (auto simp: F_def)
    also have "\<dots> \<longleftrightarrow> x \<in> set EEG_CHANNEL_NAMES"
      using assms(2,8) by auto
    finally show "x |\<in>| fmdom (fmupd c5 s5 (pending st4 i)) \<longleftrightarrow>
                  x |\<in>| fset_of_list EEG_CHANNEL_NAMES"
      by (simp add: p4 fset_of_list_elem)
  qed
  have look: "fmlookup (fmupd c5 s5 (pending st4 i)) n = Some ((smp(c5 := s5)) n)"
    if "n \<in> set EEG_CHANNEL_NAMES" for n
  proof -
    have "n \<in> set [c1, c2, c3, c4]"
      using that assms(2) by simp
    then show ?thesis
      by (auto simp: p4 F_def)
  qed
  have len': "length ((smp(c5 := s5)) n) = 12" if "n \<in> set EEG_CHANNEL_NAMES" for n
    using that len assms(9) by simp
  note cs = completion_state [OF domF look [OF channel_names(1)] look [OF channel_names(2)]
      look [OF channel_names(3)] look [OF channel_names(4)] len' [OF channel_names(1)]
      len' [OF channel_names(2)] len' [OF channel_names(3)] len' [OF channel_names(4)]
      t4 lsl4, of t5]
  obtain st5 where p5: "process_eeg_packet c5 i s5 t5 st4 = (None, st5)"
    using cs(1) by (cases "process_eeg_packet c5 i s5 t5 st4") auto
  have "feed_eeg (four @ [(c5, i, s5, t5)]) st = ([], st5)"
    by (simp only: feed_eeg_snoc f4 snd_conv fst_conv p5 prod.case option.case)
  then have f5: "feed_eeg [(c1, i, smp c1, t1), (c2, i, smp c2, t2), (c3, i, smp c3, t3),
                        (c4, i, smp c4, t4), (c5, i, s5, t5)] st = ([], st5)"
    by (simp add: four_def del: feed_eeg.simps)
  show ?thesis
    using cs(2) by (simp add: f5 p5 del: feed_eeg.simps)
qed

text \<open>
  Index 7 on a new streamer with outlets, and a second AF7 vector at clock reading 14.
\<close>

theorem further_sample_emits_duplicate_frame_witness:
  "distinct [''TP9'', ''AF7'', ''AF8'', ''TP10'']
   \<and> set [''TP9'', ''AF7'', ''AF8'', ''TP10''] = set EEG_CHANNEL_NAMES
   \<and> 7 |\<notin>| fmdom (eeg_buffer with_outlets)
   \<and> streams_created (lsl_streamer with_outlets)
   \<and> eeg_outlet (lsl_streamer with_outlets) = Some []
   \<and> length (example_samples ''TP9'') = 12 \<and> length (example_samples ''AF7'') = 12
   \<and> length (example_samples ''AF8'') = 12 \<and> length (example_samples ''TP10'') = 12
   \<and> 7 |\<in>| fmdom (eeg_buffer (snd (feed_eeg
        [(''TP9'', 7, example_samples ''TP9'', 10), (''AF7'', 7, example_samples ''AF7'', 11),
         (''AF8'', 7, example_samples ''AF8'', 12), (''TP10'', 7, example_samples ''TP10'', 13)]
        with_outlets)))
   \<and> ''AF7'' \<in> set EEG_CHANNEL_NAMES
   \<and> length (replicate 12 (9 :: real)) = 12
   \<and> eeg_outlet (lsl_streamer (snd (feed_eeg
        [(''TP9'', 7, example_samples ''TP9'', 10), (''AF7'', 7, example_samples ''AF7'', 11),
         (''AF8'', 7, example_samples ''AF8'', 12), (''TP10'', 7, example_samples ''TP10'', 13),
         (''AF7'', 7, replicate 12 9, 14)]
        with_outlets))) =
       Some (frame_samples (example_samples ''TP9'') (example_samples ''AF7'')
               (example_samples ''AF8'') (example_samples ''TP10'') 10
             @ frame_samples (example_samples ''TP9'') (replicate 12 9)
                 (example_samples ''AF8'') (example_samples ''TP10'') 10)"
proof -
  have h1: "distinct [''TP9'', ''AF7'', ''AF8'', ''TP10'']"
    by simp
  have h2: "set [''TP9'', ''AF7'', ''AF8'', ''TP10''] = set EEG_CHANNEL_NAMES"
    by (simp add: EEG_CHANNEL_NAMES_def)
  have h3: "7 |\<notin>| fmdom (eeg_buffer with_outlets)"
    by (simp add: with_outlets_fields)
  have h6: "\<forall>c \<in> set EEG_CHANNEL_NAMES. length (example_samples c) = 12"
    by (simp add: example_samples_length)
  have h9: "length (replicate 12 (9 :: real)) = 12"
    by simp
  show ?thesis
    using further_sample_emits_duplicate_frame [OF h1 h2 h3 with_outlets_fields(1,2) h6
        example_four_present channel_names(2) h9, of 14]
      h1 h2 h3 h9 with_outlets_fields(1,2) example_four_present channel_names(2)
    by (simp add: example_samples_length del: feed_eeg.simps)
qed

section \<open>Teardown\<close>

lemma stop_streaming_connected:
  assumes "connected c" and "client c"
  shows "\<exists>r c' tr'. stop_streaming ok (c, tr) = (Inr r, c', tr')
           \<and> connected c' = connected c \<and> client c' = client c"
  using assms
  by (auto simp: stop_streaming_def await_def split: bool.splits)

lemma disconnect_noop:
  assumes "\<not> connected c \<or> \<not> client c"
  shows "disconnect ok (c, tr) = (c, tr)"
  using assms by (auto simp: disconnect_def)

lemma disconnect_reaches_close:
  assumes "connected c" and "client c"
  shows "\<exists>c1 tr1. disconnect ok (c, tr) =
           (if ok tr1 ClientDisconnect then c1\<lparr>connected := False, streaming := False\<rparr> else c1,
            tr1 @ [(ClientDisconnect, ok tr1 ClientDisconnect)])
         \<and> connected c1 \<and> client c1"
proof (cases "streaming c")
  case True
  obtain r c' tr' where s: "stop_streaming ok (c, tr) = (Inr r, c', tr')"
    and c': "connected c' = connected c" "client c' = client c"
    using stop_streaming_connected [OF assms] by blast
  show ?thesis
    using assms c'
    by (intro exI [of _ c'] exI [of _ "stop_notify_all ok tr'"])
       (simp add: disconnect_def True s await_def)
next
  case False
  show ?thesis
    using assms
    by (intro exI [of _ c] exI [of _ "stop_notify_all ok tr"])
       (simp add: disconnect_def False await_def)
qed

lemma disconnect_twice:
  assumes "\<not> connected (fst (disconnect ok (c, tr)))"
  shows "disconnect ok (disconnect ok (c, tr)) = disconnect ok (c, tr)"
proof -
  obtain c' tr' where d: "disconnect ok (c, tr) = (c', tr')"
    by (cases "disconnect ok (c, tr)")
  with assms have "\<not> connected c'"
    by simp
  then show ?thesis
    by (simp add: d disconnect_noop)
qed

lemma stop_twice: "stop ok (stop ok (st, tr)) = stop ok (st, tr)"
proof (cases "running st")
  case False
  then show ?thesis
    by (simp add: stop_def)
next
  case True
  obtain st' tr' where s: "stop ok (st, tr) = (st', tr')"
    by (cases "stop ok (st, tr)")
  have "\<not> running st'"
    using s True by (auto simp: stop_def Let_def split: prod.splits option.splits)
  then have "stop ok (st', tr') = (st', tr')"
    by (simp add: stop_def)
  then show ?thesis
    by (simp only: s)
qed

lemma disconnect_always_ok:
  "disconnect always_ok (streaming_client, []) =
     (\<lparr>client = True, connected = False, streaming = False\<rparr>,
      [(WriteGattChar CONTROL_UUID CMD_STOP_STREAM, True),
       (StopNotify EEG_TP9_UUID, True), (StopNotify EEG_AF7_UUID, True),
       (StopNotify EEG_AF8_UUID, True), (StopNotify EEG_TP10_UUID, True),
       (StopNotify ACCELEROMETER_UUID, True), (StopNotify GYROSCOPE_UUID, True),
       (ClientDisconnect, True)])"
  by (simp add: disconnect_def stop_streaming_def stop_notify_all_def await_def
      always_ok_def streaming_client_def)

lemma disconnect_link_close_fails:
  "disconnect link_close_fails (streaming_client, []) =
     (\<lparr>client = True, connected = True, streaming = False\<rparr>,
      [(WriteGattChar CONTROL_UUID CMD_STOP_STREAM, True),
       (StopNotify EEG_TP9_UUID, True), (StopNotify EEG_AF7_UUID, True),
       (StopNotify EEG_AF8_UUID, True), (StopNotify EEG_TP10_UUID, True),
       (StopNotify ACCELEROMETER_UUID, True), (StopNotify GYROSCOPE_UUID, True),
       (ClientDisconnect, False)])"
  by (simp add: disconnect_def stop_streaming_def stop_notify_all_def await_def
      link_close_fails_def streaming_client_def)

lemma disconnect_link_close_fails_again:
  "disconnect link_close_fails (disconnect link_close_fails (streaming_client, [])) =
     (\<lparr>client = True, connected = True, streaming = False\<rparr>,
      [(WriteGattChar CONTROL_UUID CMD_STOP_STREAM, True),
       (StopNotify EEG_TP9_UUID, True), (StopNotify EEG_AF7_UUID, True),
       (StopNotify EEG_AF8_UUID, True), (StopNotify EEG_TP10_UUID, True),
       (StopNotify ACCELEROMETER_UUID, True), (StopNotify GYROSCOPE_UUID, True),
       (ClientDisconnect, False),
       (StopNotify EEG_TP9_UUID, True), (StopNotify EEG_AF7_UUID, True),
       (StopNotify EEG_AF8_UUID, True), (StopNotify EEG_TP10_UUID, True),
       (StopNotify ACCELEROMETER_UUID, True), (StopNotify GYROSCOPE_UUID, True),
       (ClientDisconnect, False)])"
  unfolding disconnect_link_close_fails
  by (simp add: disconnect_def stop_notify_all_def await_def link_close_fails_def)

text \<open>
  Claim C9 states that two calls of \<open>disconnect\<close> in succession never release a
  resource twice. On a link whose closing raises, the first call unsubscribes the TP9
  characteristic once and leaves the client marked connected, and the second call
  unsubscribes it again: the log of the two calls holds the unsubscription twice.
\<close>

theorem second_disconnect_repeats_unsubscribe:
  "count_list (map fst (snd (disconnect link_close_fails (streaming_client, []))))
     (StopNotify EEG_TP9_UUID) = 1
   \<and> count_list (map fst (snd (disconnect link_close_fails
                                 (disconnect link_close_fails (streaming_client, [])))))
       (StopNotify EEG_TP9_UUID) = 2"
proof -
  have a: "snd (disconnect link_close_fails (streaming_client, [])) =
      [(WriteGattChar CONTROL_UUID CMD_STOP_STREAM, True),
       (StopNotify EEG_TP9_UUID, True), (StopNotify EEG_AF7_UUID, True),
       (StopNotify EEG_AF8_UUID, True), (StopNotify EEG_TP10_UUID, True),
       (StopNotify ACCELEROMETER_UUID, True), (StopNotify GYROSCOPE_UUID, True),
       (ClientDisconnect, False)]"
    by (simp only: disconnect_link_close_fails snd_conv)
  have b: "snd (disconnect link_close_fails
                  (disconnect link_close_fails (streaming_client, []))) =
      [(WriteGattChar CONTROL_UUID CMD_STOP_STREAM, True),
       (StopNotify EEG_TP9_UUID, True), (StopNotify EEG_AF7_UUID, True),
       (StopNotify EEG_AF8_UUID, True), (StopNotify EEG_TP10_UUID, True),
       (StopNotify ACCELEROMETER_UUID, True), (StopNotify GYROSCOPE_UUID, True),
       (ClientDisconnect, False),
       (StopNotify EEG_TP9_UUID, True), (StopNotify EEG_AF7_UUID, True),
       (StopNotify EEG_AF8_UUID, True), (StopNotify EEG_TP10_UUID, True),
       (StopNotify ACCELEROMETER_UUID, True), (StopNotify GYROSCOPE_UUID, True),
       (ClientDisconnect, False)]"
    by (simp only: disconnect_link_close_fails_again snd_conv)
  show ?thesis
    unfolding a b
    by (simp add: EEG_TP9_UUID_def EEG_AF7_UUID_def EEG_AF8_UUID_def
        EEG_TP10_UUID_def ACCELEROMETER_UUID_def GYROSCOPE_UUID_def)
qed

text \<open>
  Claim C9, amended. \<open>disconnect\<close> returns without an exception in every case (its
  result is a state, never an error), and on a client that is not connected it changes
  nothing and makes no call on the link. On a connected client it always reaches the
  closing of the link, and clears the connected flag exactly when the closing
  returned; after such a call a second \<open>disconnect\<close> in succession is a no-op: no
  call on the link, no second release. \<open>stop\<close> is a no-op on a streamer that is not
  running, and a second \<open>stop\<close> in succession is always a no-op.
\<close>

theorem teardown_idempotent:
  "(\<not> connected c \<or> \<not> client c \<longrightarrow> disconnect ok (c, tr) = (c, tr))
   \<and> (connected c \<and> client c \<longrightarrow>
        last (snd (disconnect ok (c, tr))) =
          (ClientDisconnect, \<not> connected (fst (disconnect ok (c, tr)))))
   \<and> (\<not> connected (fst (disconnect ok (c, tr))) \<longrightarrow>
        disconnect ok (disconnect ok (c, tr)) = disconnect ok (c, tr))
   \<and> (\<not> running st \<longrightarrow> stop ok (st, tr) = (st, tr))
   \<and> stop ok (stop ok (st, tr)) = stop ok (st, tr)"
proof -
  have close: "last (snd (disconnect ok (c, tr))) =
          (ClientDisconnect, \<not> connected (fst (disconnect ok (c, tr))))"
    if h: "connected c" "client c"
  proof -
    obtain c1 tr1 where d: "disconnect ok (c, tr) =
           (if ok tr1 ClientDisconnect then c1\<lparr>connected := False, streaming := False\<rparr> else c1,
            tr1 @ [(ClientDisconnect, ok tr1 ClientDisconnect)])"
      and c1: "connected c1"
      using disconnect_reaches_close [OF h] by blast
    show ?thesis
      using c1 by (simp add: d)
  qed
  have idle: "stop ok (st, tr) = (st, tr)" if "\<not> running st"
    using that by (simp add: stop_def)
  show ?thesis
    using disconnect_noop [of c ok tr] close disconnect_twice [of ok c tr] idle
      stop_twice [of ok st tr]
    by blast
qed

text \<open>
  A streaming client on a link where every call returns, a client that was never
  connected, and a running and a new streamer.
\<close>

theorem teardown_idempotent_witness:
  "connected streaming_client \<and> client streaming_client
   \<and> last (snd (disconnect always_ok (streaming_client, []))) = (ClientDisconnect, True)
   \<and> \<not> connected (fst (disconnect always_ok (streaming_client, [])))
   \<and> disconnect always_ok (disconnect always_ok (streaming_client, [])) =
       disconnect always_ok (streaming_client, [])
   \<and> \<not> connected new_ble_client
   \<and> disconnect always_ok (new_ble_client, []) = (new_ble_client, [])
   \<and> \<not> running new_streamer
   \<and> stop always_ok (new_streamer, []) = (new_streamer, [])
   \<and> stop always_ok (stop always_ok (running_streamer, [])) =
       stop always_ok (running_streamer, [])"
proof -
  have a: "connected streaming_client \<and> client streaming_client"
    by (simp add: streaming_client_def)
  have b: "\<not> connected (fst (disconnect always_ok (streaming_client, [])))"
    by (simp add: disconnect_always_ok)
  have c: "\<not> connected new_ble_client"
    by (simp add: new_ble_client_def)
  have d: "\<not> running new_streamer"
    by (simp add: new_streamer_def)
  show ?thesis
    using teardown_idempotent [of streaming_client always_ok "[]" running_streamer]
      teardown_idempotent [of new_ble_client always_ok "[]" new_streamer] a b c d
    by simp
qed

end
